theory Spec2Isabelle
  imports Main "HOL-Library.Word"
begin

unbundle bit_operations_syntax

section \<open>Spanner change-stream watch (internal/datastore/spanner/watch.go)\<close>

subsection \<open>Values and errors\<close>

text \<open>
  A Go value of type \<^verbatim>\<open>any\<close> as \<^verbatim>\<open>encoding/json\<close> produces it for a
  \<^verbatim>\<open>spanner.NullJSON\<close>: nil, bool, number, string, slice or \<^verbatim>\<open>map[string]any\<close>.
  Numbers only matter here as "not a string"; they are kept as integers.
\<close>

datatype jval =
    JNull
  | JBool bool
  | JNum int
  | JStr string
  | JArr "jval list"
  | JObj "(string \<times> jval) list"

text \<open>
  The errors the session can put on the error channel. \<^verbatim>\<open>BugErr\<close> is the value of
  \<^verbatim>\<open>spiceerrors.MustBugf\<close>, \<^verbatim>\<open>UnableToReadConfig\<close> is
  \<^verbatim>\<open>fmt.Errorf(errUnableToReadConfig, err)\<close>, \<^verbatim>\<open>ExternalErr\<close> an error of a
  library outside the repository (reader, JSON, base64, protobuf).
\<close>

datatype err =
    ParseErr string
  | BugErr string
  | UnableToReadConfig err
  | ExternalErr string
  | WatchCanceledErr
  | WatchDisconnectedErr

text \<open>A Go run-time panic (failed unchecked type assertion) is not an error value.\<close>

datatype failure = Panic | Failed err

definition liftErr :: "err + 'a \<Rightarrow> failure + 'a" where
  "liftErr r = (case r of Inl e \<Rightarrow> Inl (Failed e) | Inr x \<Rightarrow> Inr x)"

text \<open>\<^verbatim>\<open>m[k]\<close> on a \<^verbatim>\<open>map[string]any\<close>: nil when the key is absent.\<close>

definition mapIndex :: "(string \<times> jval) list \<Rightarrow> string \<Rightarrow> jval" where
  "mapIndex m k = (case map_of m k of None \<Rightarrow> JNull | Some v \<Rightarrow> v)"

text \<open>The unchecked assertion \<^verbatim>\<open>v.(string)\<close>: panics unless the value is a string.\<close>

definition asString :: "jval \<Rightarrow> failure + string" where
  "asString v = (case v of JStr s \<Rightarrow> Inr s | _ \<Rightarrow> Inl Panic)"

text \<open>
  \<^verbatim>\<open>a == b\<close> on two \<^verbatim>\<open>any\<close> values: false for different dynamic types, a run-time
  panic for two values of the same uncomparable type (slice, map).
\<close>

fun ifaceEq :: "jval \<Rightarrow> jval \<Rightarrow> failure + bool" where
  "ifaceEq JNull JNull = Inr True"
| "ifaceEq (JBool a) (JBool b) = Inr (a = b)"
| "ifaceEq (JNum a) (JNum b) = Inr (a = b)"
| "ifaceEq (JStr a) (JStr b) = Inr (a = b)"
| "ifaceEq (JArr a) (JArr b) = Inl Panic"
| "ifaceEq (JObj a) (JObj b) = Inl Panic"
| "ifaceEq a b = Inr False"

subsection \<open>Domain data (core and datastore packages, as watch.go uses them)\<close>

record ObjectAndRelation =
  Namespace :: string
  ObjectId :: string
  Relation :: string

record ContextualizedCaveat =
  CaveatName :: string
  Context :: "(string \<times> jval) list option"

record RelationTuple =
  ResourceAndRelation :: ObjectAndRelation
  Subject :: ObjectAndRelation
  Caveat :: "ContextualizedCaveat option"

datatype Operation = TOUCH | DELETE

record RelationTupleUpdate =
  Operation :: Operation
  Tuple :: RelationTuple

text \<open>A deserialized schema object; the payload stands for the decoded protobuf message.\<close>

datatype SchemaDefinition = NamespaceDefinition string | CaveatDefinition string

text \<open>
  \<^verbatim>\<open>datastore.Revision\<close> is an interface; \<^verbatim>\<open>revision.Decimal\<close> is the implementation
  this datastore produces. Any other dynamic type (nil included) is \<^verbatim>\<open>NotDecimal\<close>.
\<close>

datatype Revision = Decimal int | NotDecimal

text \<open>
  Modelled from the spec: \<^verbatim>\<open>datastore.RevisionChanges\<close> is declared outside watch.go. Section 3:
  a revision, relationship updates tagged TOUCH or DELETE, upserted schema objects, deleted
  schema object names per kind, and a checkpoint flag.
\<close>

record RevisionChanges =
  Revision :: Revision
  RelationshipChanges :: "RelationTupleUpdate list"
  ChangedDefinitions :: "SchemaDefinition list"
  DeletedNamespaces :: "string list"
  DeletedCaveats :: "string list"
  IsCheckpoint :: bool

text \<open>
  Modelled from the spec: the revision codec (revisions.go) is not part of watch.go. Section 4.1:
  deterministic, total and lossless, with \<^verbatim>\<open>timestampFromRevision\<close> its exact inverse.
  A commit timestamp is its count of nanoseconds.
\<close>

definition revisionFromTimestamp :: "int \<Rightarrow> Revision" where
  "revisionFromTimestamp t = Decimal t"

fun timestampFromRevision :: "Revision \<Rightarrow> int" where
  "timestampFromRevision (Decimal t) = t"
| "timestampFromRevision NotDecimal = 0"

subsection \<open>Change-stream records (changestreams package)\<close>

record Mod =
  Keys :: jval
  NewValues :: jval
  OldValues :: jval

record DataChangeRecord =
  CommitTimestamp :: int
  TableName :: string
  ModType :: string
  Mods :: "Mod list"

record HeartbeatRecord =
  Timestamp :: int

record ChangeRecord =
  DataChangeRecords :: "DataChangeRecord list"
  HeartbeatRecords :: "HeartbeatRecord list"

record ReadResult =
  ChangeRecords :: "ChangeRecord list"

subsection \<open>What watch.go takes from elsewhere\<close>

text \<open>
  The table and column names are constants of the package declared in another file, and the
  JSON, base64, protobuf and caveat helpers are library functions: all are parameters.
\<close>

record deps =
  tableRelationship :: string
  tableNamespace :: string
  tableCaveat :: string
  colNamespace :: string
  colObjectID :: string
  colRelation :: string
  colUsersetNamespace :: string
  colUsersetObjectID :: string
  colUsersetRelation :: string
  colNamespaceName :: string
  colName :: string
  colNamespaceConfig :: string
  colCaveatDefinition :: string
  colCaveatName :: string
  colCaveatContext :: string
  jsonUnmarshal :: "string \<Rightarrow> err + (string \<times> jval) list option"
  ContextualizedCaveatFrom ::
    "string \<Rightarrow> (string \<times> jval) list option \<Rightarrow> err + ContextualizedCaveat option"
  base64Decode :: "string \<Rightarrow> err + string"
  unmarshalNamespace :: "string \<Rightarrow> err + string"
  unmarshalCaveat :: "string \<Rightarrow> err + string"

subsection \<open>parseDatabaseName\<close>

fun splitSlash :: "string \<Rightarrow> string list" where
  "splitSlash [] = [[]]"
| "splitSlash (c # cs) =
     (if c = CHR ''/'' then [] # splitSlash cs
      else (case splitSlash cs of [] \<Rightarrow> [[c]] | s # ss \<Rightarrow> (c # s) # ss))"

text \<open>
  The pattern \<^verbatim>\<open>^projects/([^/]+)/instances/([^/]+)/databases/([^/]+)$\<close>: exactly six
  segments between slashes, the three names non-empty.
\<close>

definition parseDatabaseName :: "string \<Rightarrow> err + (string \<times> string \<times> string)" where
  "parseDatabaseName db =
     (case splitSlash db of
        [a, project, b, instance, c, database] \<Rightarrow>
          if a = ''projects'' \<and> b = ''instances'' \<and> c = ''databases''
             \<and> project \<noteq> [] \<and> instance \<noteq> [] \<and> database \<noteq> []
          then Inr (project, instance, database)
          else Inl (ParseErr db)
      | _ \<Rightarrow> Inl (ParseErr db))"

subsection \<open>Stream selection\<close>

text \<open>
  Modelled from the spec: the \<^verbatim>\<open>datastore.WatchContent\<close> constants are declared outside
  watch.go. Section 4.2: independent bits for relationships, schema definitions and checkpoints.
  The mask is a Go \<^verbatim>\<open>int\<close>.
\<close>

type_synonym WatchContent = "64 word"

definition WatchRelationships :: WatchContent where
  "WatchRelationships = 1"

definition WatchSchema :: WatchContent where
  "WatchSchema = 2"

definition WatchCheckpoints :: WatchContent where
  "WatchCheckpoints = 4"

datatype StreamName =
    RelationTupleChangeStreamName
  | SchemaChangeStreamName
  | CombinedChangeStreamName

text \<open>Lines 108 to 114: two successive assignments, the second overriding the first.\<close>

definition changeStreamName :: "WatchContent \<Rightarrow> StreamName" where
  "changeStreamName content =
     (let name1 = (if content AND WatchRelationships = content
                   then RelationTupleChangeStreamName else CombinedChangeStreamName)
      in if content AND (WatchSchema OR WatchCheckpoints) = content
         then SchemaChangeStreamName else name1)"

subsection \<open>Decoding one modification (the body of the loop over \<^verbatim>\<open>dcr.Mods\<close>)\<close>

definition andThen :: "failure + 'a \<Rightarrow> ('a \<Rightarrow> failure + 'b) \<Rightarrow> failure + 'b" where
  "andThen r f = (case r of Inl e \<Rightarrow> Inl e | Inr x \<Rightarrow> f x)"

definition bug :: "string \<Rightarrow> failure + 'a" where
  "bug msg = Inl (Failed (BugErr msg))"

text \<open>The checked assertions \<^verbatim>\<open>v, ok := x.(map[string]any)\<close> and \<^verbatim>\<open>v, ok := x.(string)\<close>.\<close>

definition asMap :: "jval \<Rightarrow> (string \<times> jval) list option" where
  "asMap v = (case v of JObj m \<Rightarrow> Some m | _ \<Rightarrow> None)"

definition asStringOk :: "jval \<Rightarrow> string option" where
  "asStringOk v = (case v of JStr s \<Rightarrow> Some s | _ \<Rightarrow> None)"

text \<open>
  What the decoder hands to the per-record accumulator: one constructor for each
  \<^verbatim>\<open>tracked.Add...\<close> call of the source, with the call's arguments.
\<close>

datatype event =
    RelationshipChange Revision RelationTuple Operation
  | DeletedNamespace Revision string
  | DeletedCaveat Revision string
  | ChangedDefinition Revision SchemaDefinition

text \<open>
  The struct literal of lines 163 to 174 and 232 to 243: six unchecked string assertions on
  the primary-key columns.
\<close>

definition relationTupleOfKeys :: "deps \<Rightarrow> (string \<times> jval) list \<Rightarrow> failure + RelationTuple" where
  "relationTupleOfKeys D pk =
     andThen (asString (mapIndex pk (colNamespace D))) (\<lambda>ns.
     andThen (asString (mapIndex pk (colObjectID D))) (\<lambda>oid.
     andThen (asString (mapIndex pk (colRelation D))) (\<lambda>rel.
     andThen (asString (mapIndex pk (colUsersetNamespace D))) (\<lambda>uns.
     andThen (asString (mapIndex pk (colUsersetObjectID D))) (\<lambda>uoid.
     andThen (asString (mapIndex pk (colUsersetRelation D))) (\<lambda>urel.
       Inr \<lparr>ResourceAndRelation = \<lparr>Namespace = ns, ObjectId = oid, Relation = rel\<rparr>,
            Subject = \<lparr>Namespace = uns, ObjectId = uoid, Relation = urel\<rparr>,
            Caveat = None\<rparr>))))))"

definition contextualizedCaveatFromValues ::
  "deps \<Rightarrow> (string \<times> jval) list \<Rightarrow> failure + ContextualizedCaveat option" where
  "contextualizedCaveatFromValues D values =
     andThen (asString (mapIndex values (colCaveatName D))) (\<lambda>name.
       if name \<noteq> [] then
         (case mapIndex values (colCaveatContext D) of
            JNull \<Rightarrow> liftErr (ContextualizedCaveatFrom D name None)
          | JStr contextString \<Rightarrow>
              (case jsonUnmarshal D contextString of
                 Inl e \<Rightarrow> Inl (Failed e)
               | Inr ctx \<Rightarrow> liftErr (ContextualizedCaveatFrom D name ctx))
          | _ \<Rightarrow> Inl Panic)
       else Inr None)"

text \<open>Line 259: \<^verbatim>\<open>old[name] == new[name] && old[context] == new[context]\<close>, short-circuit.\<close>

definition caveatUnchanged ::
  "deps \<Rightarrow> (string \<times> jval) list \<Rightarrow> (string \<times> jval) list \<Rightarrow> failure + bool" where
  "caveatUnchanged D oldValues newValues =
     andThen (ifaceEq (mapIndex oldValues (colCaveatName D)) (mapIndex newValues (colCaveatName D)))
       (\<lambda>sameName.
          if sameName
          then ifaceEq (mapIndex oldValues (colCaveatContext D))
                       (mapIndex newValues (colCaveatContext D))
          else Inr False)"

text \<open>The case \<^verbatim>\<open>"DELETE"\<close>, lines 160 to 219.\<close>

definition decodeDelete ::
  "deps \<Rightarrow> Revision \<Rightarrow> string \<Rightarrow> (string \<times> jval) list \<Rightarrow> Mod \<Rightarrow> failure + event option" where
  "decodeDelete D changeRevision tableName pk m =
     (if tableName = tableRelationship D then
        andThen (relationTupleOfKeys D pk) (\<lambda>relationTuple.
          case asMap (OldValues m) of
            None \<Rightarrow> bug ''error converting old values map''
          | Some oldValues \<Rightarrow>
              andThen (contextualizedCaveatFromValues D oldValues) (\<lambda>caveat.
                Inr (Some (RelationshipChange changeRevision
                             (relationTuple\<lparr>Caveat := caveat\<rparr>) DELETE))))
      else if tableName = tableNamespace D then
        (case map_of pk (colNamespaceName D) of
           None \<Rightarrow> bug ''missing namespace name value''
         | Some namespaceNameValue \<Rightarrow>
             (case asStringOk namespaceNameValue of
                None \<Rightarrow> bug ''error converting namespace name: %v''
              | Some namespaceName \<Rightarrow> Inr (Some (DeletedNamespace changeRevision namespaceName))))
      else if tableName = tableCaveat D then
        (case map_of pk (colNamespaceName D) of
           None \<Rightarrow> bug ''missing caveat name''
         | Some caveatNameValue \<Rightarrow>
             (case asStringOk caveatNameValue of
                None \<Rightarrow> bug ''error converting caveat name: %v''
              | Some caveatName \<Rightarrow> Inr (Some (DeletedCaveat changeRevision caveatName))))
      else bug ''unknown table name %s in delete of change stream'')"

text \<open>
  The cases \<^verbatim>\<open>"INSERT"\<close> (which falls through) and \<^verbatim>\<open>"UPDATE"\<close>, lines 221 to 321.
  \<^verbatim>\<open>Inr None\<close> is the \<^verbatim>\<open>continue\<close> of line 260. The second assertion on the new
  values (line 254) repeats the first and cannot fail after it.
\<close>

definition decodeUpsert ::
  "deps \<Rightarrow> Revision \<Rightarrow> string \<Rightarrow> (string \<times> jval) list \<Rightarrow> Mod \<Rightarrow> failure + event option" where
  "decodeUpsert D changeRevision tableName pk m =
     (case asMap (NewValues m) of
        None \<Rightarrow> bug ''error new values keys map''
      | Some newValues \<Rightarrow>
          if tableName = tableRelationship D then
            andThen (relationTupleOfKeys D pk) (\<lambda>relationTuple.
              case asMap (OldValues m) of
                None \<Rightarrow> bug ''error converting old values map''
              | Some oldValues \<Rightarrow>
                  andThen (caveatUnchanged D oldValues newValues) (\<lambda>unchanged.
                    if unchanged then Inr None
                    else
                      andThen (contextualizedCaveatFromValues D newValues) (\<lambda>caveat.
                        Inr (Some (RelationshipChange changeRevision
                                     (relationTuple\<lparr>Caveat := caveat\<rparr>) TOUCH)))))
          else if tableName = tableNamespace D then
            (case map_of newValues (colNamespaceConfig D) of
               None \<Rightarrow> bug ''missing namespace config value''
             | Some namespaceConfigValue \<Rightarrow>
                 (case asStringOk namespaceConfigValue of
                    None \<Rightarrow> bug ''error converting namespace config value''
                  | Some base64SerializedConfig \<Rightarrow>
                      (case base64Decode D base64SerializedConfig of
                         Inl e \<Rightarrow> Inl (Failed (UnableToReadConfig e))
                       | Inr serializedConfig \<Rightarrow>
                           (case unmarshalNamespace D serializedConfig of
                              Inl e \<Rightarrow> Inl (Failed (UnableToReadConfig e))
                            | Inr ns \<Rightarrow>
                                Inr (Some (ChangedDefinition changeRevision
                                             (NamespaceDefinition ns)))))))
          else if tableName = tableCaveat D then
            (case map_of newValues (colCaveatDefinition D) of
               None \<Rightarrow> bug ''missing caveat definition value''
             | Some caveatDefValue \<Rightarrow>
                 (case asStringOk caveatDefValue of
                    None \<Rightarrow> bug ''error converting caveat definition value''
                  | Some base64SerializedConfig \<Rightarrow>
                      (case base64Decode D base64SerializedConfig of
                         Inl e \<Rightarrow> Inl (Failed (UnableToReadConfig e))
                       | Inr serializedConfig \<Rightarrow>
                           (case unmarshalCaveat D serializedConfig of
                              Inl e \<Rightarrow> Inl (Failed (UnableToReadConfig e))
                            | Inr caveat \<Rightarrow>
                                Inr (Some (ChangedDefinition changeRevision
                                             (CaveatDefinition caveat)))))))
          else bug ''unknown table name %s in delete of change stream'')"

definition decodeMod ::
  "deps \<Rightarrow> Revision \<Rightarrow> string \<Rightarrow> string \<Rightarrow> Mod \<Rightarrow> failure + event option" where
  "decodeMod D changeRevision tableName modType m =
     (case asMap (Keys m) of
        None \<Rightarrow> bug ''error converting keys map''
      | Some primaryKeyColumnValues \<Rightarrow>
          if modType = ''DELETE''
          then decodeDelete D changeRevision tableName primaryKeyColumnValues m
          else if modType = ''INSERT'' \<or> modType = ''UPDATE''
          then decodeUpsert D changeRevision tableName primaryKeyColumnValues m
          else bug ''unknown modtype in spanner change stream record'')"

subsection \<open>The per-record accumulator (common.Changes)\<close>

text \<open>
  Modelled from the spec: \<^verbatim>\<open>common.Changes\<close> (changes.go) is not part of watch.go.
  Section 4.4: an accumulator built from a key function and the content mask; every add
  operation is filtered against the mask; rendering yields one change set per revision, in
  ascending order of the key under the supplied less-than comparator.
\<close>

record Changes =
  chKey :: "Revision \<Rightarrow> int"
  chContent :: WatchContent
  chRecords :: "(int \<times> RevisionChanges) list"

definition DecimalKeyFunc :: "Revision \<Rightarrow> int" where
  "DecimalKeyFunc r = timestampFromRevision r"

definition DecimalKeyLessThanFunc :: "int \<Rightarrow> int \<Rightarrow> bool" where
  "DecimalKeyLessThanFunc lhs rhs = (lhs < rhs)"

definition NewChanges :: "(Revision \<Rightarrow> int) \<Rightarrow> WatchContent \<Rightarrow> Changes" where
  "NewChanges keyFunc content = \<lparr>chKey = keyFunc, chContent = content, chRecords = []\<rparr>"

definition emptyRecord :: "Revision \<Rightarrow> RevisionChanges" where
  "emptyRecord rv =
     \<lparr>Revision = rv, RelationshipChanges = [], ChangedDefinitions = [],
      DeletedNamespaces = [], DeletedCaveats = [], IsCheckpoint = False\<rparr>"

fun upsertRecord ::
  "int \<Rightarrow> RevisionChanges \<Rightarrow> (RevisionChanges \<Rightarrow> RevisionChanges) \<Rightarrow>
   (int \<times> RevisionChanges) list \<Rightarrow> (int \<times> RevisionChanges) list" where
  "upsertRecord k fresh f [] = [(k, f fresh)]"
| "upsertRecord k fresh f ((k', r) # rest) =
     (if k' = k then (k', f r) # rest else (k', r) # upsertRecord k fresh f rest)"

definition recordForRevision ::
  "Changes \<Rightarrow> Revision \<Rightarrow> (RevisionChanges \<Rightarrow> RevisionChanges) \<Rightarrow> Changes" where
  "recordForRevision ch rv f =
     ch\<lparr>chRecords := upsertRecord (chKey ch rv) (emptyRecord rv) f (chRecords ch)\<rparr>"

definition AddRelationshipChange ::
  "Changes \<Rightarrow> Revision \<Rightarrow> RelationTuple \<Rightarrow> Operation \<Rightarrow> err + Changes" where
  "AddRelationshipChange ch rv tpl op =
     (if chContent ch AND WatchRelationships \<noteq> WatchRelationships then Inr ch
      else Inr (recordForRevision ch rv
                  (\<lambda>r. r\<lparr>RelationshipChanges :=
                           RelationshipChanges r @ [\<lparr>Operation = op, Tuple = tpl\<rparr>]\<rparr>)))"

definition AddDeletedNamespace :: "Changes \<Rightarrow> Revision \<Rightarrow> string \<Rightarrow> Changes" where
  "AddDeletedNamespace ch rv name =
     (if chContent ch AND WatchSchema \<noteq> WatchSchema then ch
      else recordForRevision ch rv
             (\<lambda>r. r\<lparr>DeletedNamespaces := DeletedNamespaces r @ [name]\<rparr>))"

definition AddDeletedCaveat :: "Changes \<Rightarrow> Revision \<Rightarrow> string \<Rightarrow> Changes" where
  "AddDeletedCaveat ch rv name =
     (if chContent ch AND WatchSchema \<noteq> WatchSchema then ch
      else recordForRevision ch rv
             (\<lambda>r. r\<lparr>DeletedCaveats := DeletedCaveats r @ [name]\<rparr>))"

definition AddChangedDefinition :: "Changes \<Rightarrow> Revision \<Rightarrow> SchemaDefinition \<Rightarrow> Changes" where
  "AddChangedDefinition ch rv d =
     (if chContent ch AND WatchSchema \<noteq> WatchSchema then ch
      else recordForRevision ch rv
             (\<lambda>r. r\<lparr>ChangedDefinitions := ChangedDefinitions r @ [d]\<rparr>))"

definition IsEmpty :: "Changes \<Rightarrow> bool" where
  "IsEmpty ch = (chRecords ch = [])"

fun insertByKey ::
  "(int \<Rightarrow> int \<Rightarrow> bool) \<Rightarrow> int \<times> RevisionChanges \<Rightarrow>
   (int \<times> RevisionChanges) list \<Rightarrow> (int \<times> RevisionChanges) list" where
  "insertByKey lt x [] = [x]"
| "insertByKey lt x (y # ys) =
     (if lt (fst x) (fst y) then x # y # ys else y # insertByKey lt x ys)"

fun sortByKey ::
  "(int \<Rightarrow> int \<Rightarrow> bool) \<Rightarrow> (int \<times> RevisionChanges) list \<Rightarrow> (int \<times> RevisionChanges) list" where
  "sortByKey lt [] = []"
| "sortByKey lt (x # xs) = insertByKey lt x (sortByKey lt xs)"

definition AsRevisionChanges :: "Changes \<Rightarrow> (int \<Rightarrow> int \<Rightarrow> bool) \<Rightarrow> RevisionChanges list" where
  "AsRevisionChanges ch lessThanFunc = map snd (sortByKey lessThanFunc (chRecords ch))"

subsection \<open>The read callback (lines 144 to 350)\<close>

text \<open>The \<^verbatim>\<open>tracked.Add...\<close> call an event stands for; only the relationship call returns an error.\<close>

fun applyEvent :: "Changes \<Rightarrow> event \<Rightarrow> failure + Changes" where
  "applyEvent tracked (RelationshipChange rv tpl op) =
     liftErr (AddRelationshipChange tracked rv tpl op)"
| "applyEvent tracked (DeletedNamespace rv name) = Inr (AddDeletedNamespace tracked rv name)"
| "applyEvent tracked (DeletedCaveat rv name) = Inr (AddDeletedCaveat tracked rv name)"
| "applyEvent tracked (ChangedDefinition rv d) = Inr (AddChangedDefinition tracked rv d)"

fun decodeMods ::
  "deps \<Rightarrow> Changes \<Rightarrow> Revision \<Rightarrow> string \<Rightarrow> string \<Rightarrow> Mod list \<Rightarrow> failure + Changes" where
  "decodeMods D tracked changeRevision tableName modType [] = Inr tracked"
| "decodeMods D tracked changeRevision tableName modType (m # ms) =
     (case decodeMod D changeRevision tableName modType m of
        Inl f \<Rightarrow> Inl f
      | Inr None \<Rightarrow> decodeMods D tracked changeRevision tableName modType ms
      | Inr (Some ev) \<Rightarrow>
          (case applyEvent tracked ev of
             Inl f \<Rightarrow> Inl f
           | Inr tracked' \<Rightarrow> decodeMods D tracked' changeRevision tableName modType ms))"

fun decodeDataChangeRecords ::
  "deps \<Rightarrow> Changes \<Rightarrow> DataChangeRecord list \<Rightarrow> failure + Changes" where
  "decodeDataChangeRecords D tracked [] = Inr tracked"
| "decodeDataChangeRecords D tracked (dcr # rest) =
     (case decodeMods D tracked (revisionFromTimestamp (CommitTimestamp dcr))
             (TableName dcr) (ModType dcr) (Mods dcr) of
        Inl f \<Rightarrow> Inl f
      | Inr tracked' \<Rightarrow> decodeDataChangeRecords D tracked' rest)"

text \<open>
  The data channel \<^verbatim>\<open>updates\<close>: a bounded buffer. \<^verbatim>\<open>attempts\<close> logs every send
  attempt in order, with whether the channel accepted it. The consumer runs concurrently; all
  that the producer can observe of it is how many queued sets it has received before each
  send attempt, which \<^verbatim>\<open>drains\<close> lists (nothing once the list is used up).
\<close>

record Chan =
  capacity :: nat
  buffer :: "RevisionChanges list"
  attempts :: "(RevisionChanges \<times> bool) list"
  drains :: "nat list"

text \<open>The change sets the channel accepted, in order of delivery.\<close>

definition delivered :: "Chan \<Rightarrow> RevisionChanges list" where
  "delivered ch = map fst (filter snd (attempts ch))"

definition consumerStep :: "Chan \<Rightarrow> Chan" where
  "consumerStep ch =
     (case drains ch of
        [] \<Rightarrow> ch
      | n # ns \<Rightarrow> ch\<lparr>buffer := drop n (buffer ch), drains := ns\<rparr>)"

text \<open>Lines 90 to 98: \<^verbatim>\<open>select\<close> with a \<^verbatim>\<open>default\<close> branch, a send that never waits.\<close>

definition sendChange :: "Chan \<Rightarrow> RevisionChanges \<Rightarrow> Chan \<times> bool" where
  "sendChange ch change =
     (let ch1 = consumerStep ch
      in if length (buffer ch1) < capacity ch1
         then (ch1\<lparr>buffer := buffer ch1 @ [change],
                    attempts := attempts ch1 @ [(change, True)]\<rparr>, True)
         else (ch1\<lparr>attempts := attempts ch1 @ [(change, False)]\<rparr>, False))"

text \<open>The loops of lines 330 to 335 and 339 to 346: stop at the first send that fails.\<close>

fun sendChanges :: "Chan \<Rightarrow> RevisionChanges list \<Rightarrow> Chan \<times> bool" where
  "sendChanges ch [] = (ch, True)"
| "sendChanges ch (c # cs) =
     (case sendChange ch c of
        (ch', ok) \<Rightarrow> if ok then sendChanges ch' cs else (ch', False))"

definition checkpointOf :: "HeartbeatRecord \<Rightarrow> RevisionChanges" where
  "checkpointOf hbr =
     \<lparr>Revision = revisionFromTimestamp (Timestamp hbr), RelationshipChanges = [],
      ChangedDefinitions = [], DeletedNamespaces = [], DeletedCaveats = [],
      IsCheckpoint = True\<rparr>"

text \<open>The body of the loop over \<^verbatim>\<open>result.ChangeRecords\<close>: one accumulator per change record.\<close>

definition handleChangeRecord ::
  "deps \<Rightarrow> WatchContent \<Rightarrow> Chan \<Rightarrow> ChangeRecord \<Rightarrow> Chan \<times> failure option" where
  "handleChangeRecord D content ch rec =
     (case decodeDataChangeRecords D (NewChanges DecimalKeyFunc content)
             (DataChangeRecords rec) of
        Inl f \<Rightarrow> (ch, Some f)
      | Inr tracked \<Rightarrow>
          (case (if \<not> IsEmpty tracked
                 then sendChanges ch (AsRevisionChanges tracked DecimalKeyLessThanFunc)
                 else (ch, True)) of
             (ch1, ok1) \<Rightarrow>
               if \<not> ok1 then (ch1, Some (Failed WatchDisconnectedErr))
               else if content AND WatchCheckpoints = WatchCheckpoints then
                 (case sendChanges ch1 (map checkpointOf (HeartbeatRecords rec)) of
                    (ch2, ok2) \<Rightarrow>
                      if ok2 then (ch2, None)
                      else (ch2, Some (Failed WatchDisconnectedErr)))
               else (ch1, None)))"

fun handleChangeRecords ::
  "deps \<Rightarrow> WatchContent \<Rightarrow> Chan \<Rightarrow> ChangeRecord list \<Rightarrow> Chan \<times> failure option" where
  "handleChangeRecords D content ch [] = (ch, None)"
| "handleChangeRecords D content ch (rec # rest) =
     (case handleChangeRecord D content ch rec of
        (ch', Some f) \<Rightarrow> (ch', Some f)
      | (ch', None) \<Rightarrow> handleChangeRecords D content ch' rest)"

definition callback :: "deps \<Rightarrow> WatchContent \<Rightarrow> Chan \<Rightarrow> ReadResult \<Rightarrow> Chan \<times> failure option" where
  "callback D content ch result = handleChangeRecords D content ch (ChangeRecords result)"

subsection \<open>The session (watch, lines 65 to 356)\<close>

text \<open>
  Modelled from the spec: the reader is an external capability. Section 6: the batch handler
  is invoked once per batch and may return an error to abort reading; that error is what
  \<^verbatim>\<open>Read\<close> returns. Otherwise \<^verbatim>\<open>Read\<close> returns what the stream ends with.
\<close>

fun readerRead ::
  "(Chan \<Rightarrow> ReadResult \<Rightarrow> Chan \<times> failure option) \<Rightarrow> Chan \<Rightarrow> ReadResult list \<Rightarrow> err option
   \<Rightarrow> Chan \<times> failure option" where
  "readerRead f ch [] final = (ch, map_option Failed final)"
| "readerRead f ch (r # rs) final =
     (case f ch r of
        (ch', Some e) \<Rightarrow> (ch', Some e)
      | (ch', None) \<Rightarrow> readerRead f ch' rs final)"

text \<open>The value of \<^verbatim>\<open>ctx.Err()\<close>.\<close>

datatype ctx_err = NoErr | Canceled | DeadlineExceeded

record WatchOptions =
  Content :: WatchContent
  CheckpointInterval :: int

record ReaderConfig =
  cfgProject :: string
  cfgInstance :: string
  cfgDatabase :: string
  cfgStream :: StreamName
  StartTimestamp :: int
  HeartbeatInterval :: int

text \<open>
  What the session meets: the context's error when a failure is reported, whether the reader
  opens, the batches it yields and what its \<^verbatim>\<open>Read\<close> ends with, and the consumer.
\<close>

record world =
  ctxErr :: ctx_err
  openReader :: "ReaderConfig \<Rightarrow> err option"
  readResults :: "ReadResult list"
  readReturn :: "err option"
  consumer :: "nat list"

text \<open>
  What a session leaves behind: the data channel, the errors sent on \<^verbatim>\<open>errs\<close>, how often
  each channel and the reader were closed, the reader it opened, and whether it panicked.
\<close>

record Session =
  updates :: Chan
  errs :: "err list"
  updatesClosed :: nat
  errsClosed :: nat
  readerOpened :: "ReaderConfig option"
  readerClosed :: nat
  panicked :: bool

definition sendError :: "ctx_err \<Rightarrow> err \<Rightarrow> Session \<Rightarrow> Session" where
  "sendError cerr e s =
     (if cerr = Canceled then s\<lparr>errs := errs s @ [WatchCanceledErr]\<rparr>
      else s\<lparr>errs := errs s @ [e]\<rparr>)"

text \<open>The deferred calls of lines 72, 73 and 142, which run last-in first-out.\<close>

definition closeChannels :: "Session \<Rightarrow> Session" where
  "closeChannels s = s\<lparr>errsClosed := errsClosed s + 1, updatesClosed := updatesClosed s + 1\<rparr>"

definition closeReader :: "Session \<Rightarrow> Session" where
  "closeReader s = s\<lparr>readerClosed := readerClosed s + 1\<rparr>"

definition millisecond :: int where
  "millisecond = 1000000"

text \<open>Lines 76 to 79: 100ms is the least interval allowed.\<close>

definition clampHeartbeat :: "int \<Rightarrow> int" where
  "clampHeartbeat interval =
     (if interval < 100 * millisecond then 100 * millisecond else interval)"

text \<open>
  A panic at line 116 unwinds through the deferred closes and then ends the process. A panic
  inside the callback ends the process as well; the session is left as it was then.
\<close>

definition watch ::
  "deps \<Rightarrow> string \<Rightarrow> world \<Rightarrow> Revision \<Rightarrow> WatchOptions \<Rightarrow> Chan \<Rightarrow> Session" where
  "watch D sdDatabase W afterRevisionRaw opts updates0 =
     (let s0 = \<lparr>updates = updates0, errs = [], updatesClosed = 0, errsClosed = 0,
                readerOpened = None, readerClosed = 0, panicked = False\<rparr>;
          heartbeatInterval = clampHeartbeat (CheckpointInterval opts)
      in case parseDatabaseName sdDatabase of
           Inl e \<Rightarrow> closeChannels (sendError (ctxErr W) e s0)
         | Inr (project, instance, database) \<Rightarrow>
             (case afterRevisionRaw of
                NotDecimal \<Rightarrow> closeChannels (s0\<lparr>panicked := True\<rparr>)
              | Decimal t \<Rightarrow>
                  (let cfg = \<lparr>cfgProject = project, cfgInstance = instance,
                              cfgDatabase = database,
                              cfgStream = changeStreamName (Content opts),
                              StartTimestamp = timestampFromRevision (Decimal t),
                              HeartbeatInterval = heartbeatInterval\<rparr>
                   in case openReader W cfg of
                        Some e \<Rightarrow> closeChannels (sendError (ctxErr W) e s0)
                      | None \<Rightarrow>
                          (case readerRead (callback D (Content opts)) updates0
                                  (readResults W) (readReturn W) of
                             (ch, None) \<Rightarrow>
                               closeChannels (closeReader
                                 (s0\<lparr>updates := ch, readerOpened := Some cfg\<rparr>))
                           | (ch, Some Panic) \<Rightarrow>
                               s0\<lparr>updates := ch, readerOpened := Some cfg, panicked := True\<rparr>
                           | (ch, Some (Failed e)) \<Rightarrow>
                               closeChannels (closeReader (sendError (ctxErr W) e
                                 (s0\<lparr>updates := ch, readerOpened := Some cfg\<rparr>)))))))"

text \<open>Lines 56 to 63: the data channel has room for ten change sets.\<close>

definition Watch :: "deps \<Rightarrow> string \<Rightarrow> world \<Rightarrow> Revision \<Rightarrow> WatchOptions \<Rightarrow> Session" where
  "Watch D sdDatabase W afterRevision opts =
     watch D sdDatabase W afterRevision opts
       \<lparr>capacity = 10, buffer = [], attempts = [], drains = consumer W\<rparr>"

subsection \<open>Concrete inputs\<close>

text \<open>
  One instantiation of the parameters, used to run the definitions: the table and column names
  of a Spanner schema, a JSON reader that knows two documents, and helpers that always succeed.
\<close>

definition exampleDeps :: deps where
  "exampleDeps =
     \<lparr>tableRelationship = ''relation_tuple'', tableNamespace = ''namespace_config'',
      tableCaveat = ''caveat'', colNamespace = ''namespace'', colObjectID = ''object_id'',
      colRelation = ''relation'', colUsersetNamespace = ''userset_namespace'',
      colUsersetObjectID = ''userset_object_id'', colUsersetRelation = ''userset_relation'',
      colNamespaceName = ''namespace'', colName = ''name'',
      colNamespaceConfig = ''serialized_config'', colCaveatDefinition = ''definition'',
      colCaveatName = ''caveat_name'', colCaveatContext = ''caveat_context'',
      jsonUnmarshal = (\<lambda>s. if s = ''{}'' then Inr (Some [])
                           else if s = ''null'' then Inr None
                           else Inl (ExternalErr ''invalid JSON'')),
      ContextualizedCaveatFrom = (\<lambda>name ctx. Inr (Some \<lparr>CaveatName = name, Context = ctx\<rparr>)),
      base64Decode = Inr, unmarshalNamespace = Inr, unmarshalCaveat = Inr\<rparr>"

definition exampleKeyColumns :: "(string \<times> jval) list" where
  "exampleKeyColumns =
     [(''namespace'', JStr ''document''), (''object_id'', JStr ''firstdoc''),
      (''relation'', JStr ''viewer''), (''userset_namespace'', JStr ''user''),
      (''userset_object_id'', JStr ''tom''), (''userset_relation'', JStr ''...'')]"

definition exampleKeys :: jval where
  "exampleKeys = JObj exampleKeyColumns"

definition noCaveatColumns :: "(string \<times> jval) list" where
  "noCaveatColumns = [(''caveat_name'', JStr []), (''caveat_context'', JNull)]"



definition exampleDatabase :: string where
  "exampleDatabase = ''projects/p/instances/i/databases/d''"

definition allContent :: WatchOptions where
  "allContent =
     \<lparr>Content = WatchRelationships OR WatchSchema OR WatchCheckpoints, CheckpointInterval = 0\<rparr>"

text \<open>A world whose reader opens, yields the given batches and then fails with an error.\<close>

definition worldOf :: "ctx_err \<Rightarrow> ReadResult list \<Rightarrow> err option \<Rightarrow> world" where
  "worldOf c results final =
     \<lparr>ctxErr = c, openReader = (\<lambda>cfg. None), readResults = results, readReturn = final,
      consumer = []\<rparr>"

text \<open>
  A relationship row written before the caveat columns existed holds NULL in
  \<^verbatim>\<open>caveat_name\<close>; deleting it yields this modification.
\<close>

definition legacyDelete :: Mod where
  "legacyDelete =
     \<lparr>Keys = exampleKeys, NewValues = JNull, OldValues = JObj [(''caveat_name'', JNull)]\<rparr>"

definition numericKey :: Mod where
  "numericKey =
     \<lparr>Keys = JObj [(''namespace'', JNum 7)], NewValues = JObj [], OldValues = JObj []\<rparr>"

definition oneRecord :: "int \<Rightarrow> string \<Rightarrow> string \<Rightarrow> Mod list \<Rightarrow> int list \<Rightarrow> ChangeRecord" where
  "oneRecord ts tableName modType ms heartbeats =
     \<lparr>DataChangeRecords =
        (if ms = [] then []
         else [\<lparr>CommitTimestamp = ts, TableName = tableName, ModType = modType, Mods = ms\<rparr>]),
      HeartbeatRecords = map (\<lambda>t. \<lparr>Timestamp = t\<rparr>) heartbeats\<rparr>"

definition legacyDeleteWorld :: world where
  "legacyDeleteWorld =
     worldOf NoErr
       [\<lparr>ChangeRecords = [oneRecord 1 ''relation_tuple'' ''DELETE'' [legacyDelete] []]\<rparr>] None"





definition plainInsert :: Mod where
  "plainInsert = \<lparr>Keys = exampleKeys, NewValues = JObj noCaveatColumns, OldValues = JObj []\<rparr>"


text \<open>
  Two states of the data channel: every attempt so far was accepted; or the channel is full
  and the last attempt, and only that one, was refused.
\<close>

definition chanOK :: "nat \<Rightarrow> Chan \<Rightarrow> bool" where
  "chanOK n ch = (capacity ch = n \<and> length (buffer ch) \<le> n \<and> list_all snd (attempts ch))"

definition chanRefused :: "nat \<Rightarrow> Chan \<Rightarrow> bool" where
  "chanRefused n ch =
     (capacity ch = n \<and> length (buffer ch) = n \<and> attempts ch \<noteq> []
      \<and> \<not> snd (last (attempts ch)) \<and> list_all snd (butlast (attempts ch)))"

text \<open>Eleven heartbeats in one change record and a consumer that receives nothing.\<close>

definition saturatedWorld :: world where
  "saturatedWorld =
     worldOf NoErr
       [\<lparr>ChangeRecords = [oneRecord 0 [] [] [] [1, 2, 3, 4, 5, 6, 7, 8, 9, 10, 11]]\<rparr>,
        \<lparr>ChangeRecords = [oneRecord 0 [] [] [] [12]]\<rparr>] None"

text \<open>The revision an event is attributed to, and what it means for a change set to carry it.\<close>

fun evRev :: "event \<Rightarrow> Revision" where
  "evRev (RelationshipChange rv tpl op) = rv"
| "evRev (DeletedNamespace rv name) = rv"
| "evRev (DeletedCaveat rv name) = rv"
| "evRev (ChangedDefinition rv d) = rv"

fun eventIn :: "event \<Rightarrow> RevisionChanges \<Rightarrow> bool" where
  "eventIn (RelationshipChange rv tpl op) s =
     (\<lparr>Operation = op, Tuple = tpl\<rparr> \<in> set (RelationshipChanges s))"
| "eventIn (DeletedNamespace rv name) s = (name \<in> set (DeletedNamespaces s))"
| "eventIn (DeletedCaveat rv name) s = (name \<in> set (DeletedCaveats s))"
| "eventIn (ChangedDefinition rv d) s = (d \<in> set (ChangedDefinitions s))"

text \<open>Whether the content mask asks for an event: relationships, or schema for the rest.\<close>

fun eventRequested :: "WatchContent \<Rightarrow> event \<Rightarrow> bool" where
  "eventRequested content (RelationshipChange rv tpl op) =
     (content AND WatchRelationships = WatchRelationships)"
| "eventRequested content ev = (content AND WatchSchema = WatchSchema)"

text \<open>
  The accumulator as the callback builds it: keyed by revision without repetition, every
  record under the key of its own revision and none a checkpoint.
\<close>

definition trackedOK :: "Changes \<Rightarrow> bool" where
  "trackedOK t =
     (chKey t = DecimalKeyFunc \<and> distinct (map fst (chRecords t))
      \<and> (\<forall>p \<in> set (chRecords t). Revision (snd p) = Decimal (fst p) \<and> \<not> IsCheckpoint (snd p)))"

text \<open>The accumulator has the event in the record of the event's revision.\<close>

definition holds :: "Changes \<Rightarrow> event \<Rightarrow> bool" where
  "holds t ev = (\<exists>p \<in> set (chRecords t). Revision (snd p) = evRev ev \<and> eventIn ev (snd p))"

text \<open>An update of a record that keeps its revision and flag and only adds changes.\<close>

definition keeps :: "(RevisionChanges \<Rightarrow> RevisionChanges) \<Rightarrow> bool" where
  "keeps f = (\<forall>r. Revision (f r) = Revision r \<and> IsCheckpoint (f r) = IsCheckpoint r
      \<and> set (RelationshipChanges r) \<subseteq> set (RelationshipChanges (f r))
      \<and> set (DeletedNamespaces r) \<subseteq> set (DeletedNamespaces (f r))
      \<and> set (DeletedCaveats r) \<subseteq> set (DeletedCaveats (f r))
      \<and> set (ChangedDefinitions r) \<subseteq> set (ChangedDefinitions (f r)))"

text \<open>
  The change sets rendered from the data change records of one change record (none when
  decoding fails).
\<close>

definition renderedSets :: "deps \<Rightarrow> WatchContent \<Rightarrow> ChangeRecord \<Rightarrow> RevisionChanges list" where
  "renderedSets D content rec =
     (case decodeDataChangeRecords D (NewChanges DecimalKeyFunc content) (DataChangeRecords rec) of
        Inl f \<Rightarrow> []
      | Inr tracked \<Rightarrow> AsRevisionChanges tracked DecimalKeyLessThanFunc)"

text \<open>More inputs: a batch of two change records, and a change record of three revisions.\<close>

definition namespaceDelete :: "string \<Rightarrow> Mod" where
  "namespaceDelete name =
     \<lparr>Keys = JObj [(''namespace'', JStr name)], NewValues = JNull, OldValues = JObj []\<rparr>"

definition splitBatchWorld :: world where
  "splitBatchWorld =
     worldOf NoErr
       [\<lparr>ChangeRecords =
           [oneRecord 5 ''namespace_config'' ''DELETE'' [namespaceDelete ''a''] [],
            oneRecord 5 ''namespace_config'' ''DELETE'' [namespaceDelete ''b''] []]\<rparr>] None"

definition heartbeatFirstWorld :: world where
  "heartbeatFirstWorld =
     worldOf NoErr
       [\<lparr>ChangeRecords =
           [oneRecord 0 [] [] [] [7],
            oneRecord 5 ''namespace_config'' ''DELETE'' [namespaceDelete ''a''] []]\<rparr>] None"

definition mixedRecord :: ChangeRecord where
  "mixedRecord =
     \<lparr>DataChangeRecords =
        [\<lparr>CommitTimestamp = 9, TableName = ''namespace_config'', ModType = ''DELETE'',
          Mods = [namespaceDelete ''a'']\<rparr>,
         \<lparr>CommitTimestamp = 5, TableName = ''relation_tuple'', ModType = ''INSERT'',
          Mods = [plainInsert]\<rparr>,
         \<lparr>CommitTimestamp = 9, TableName = ''caveat'', ModType = ''DELETE'',
          Mods = [namespaceDelete ''b'']\<rparr>],
      HeartbeatRecords = [\<lparr>Timestamp = 10\<rparr>]\<rparr>"

section \<open>Properties\<close>

subsection \<open>Stream selection\<close>

lemma word_le_6_cases:
  fixes c :: "64 word"
  assumes "c \<le> 6"
  shows "c \<in> {0, 1, 2, 3, 4, 5, 6}"
proof -
  from assms have "unat c \<le> 6" by (simp add: word_le_nat_alt)
  then have "unat c \<in> {0, 1, 2, 3, 4, 5, 6}" by auto
  moreover have "c = of_nat (unat c)" by simp
  ultimately have
    "c \<in> {of_nat 0, of_nat 1, of_nat 2, of_nat 3, of_nat 4, of_nat 5, (of_nat 6 :: 64 word)}"
    by (metis (no_types, lifting) insert_iff empty_iff)
  then show ?thesis by simp
qed

lemma mask_relationships_iff:
  fixes c :: "64 word"
  shows "(c AND 1 = c) = (c = 0 \<or> c = 1)"
proof
  assume a: "c AND 1 = c"
  have "c AND 1 \<le> 1" by (rule word_and_le1)
  with a have "c \<le> 6" by (simp add: order_trans[where y=1])
  from word_le_6_cases[OF this] a show "c = 0 \<or> c = 1" by auto
next
  assume "c = 0 \<or> c = 1"
  then show "c AND 1 = c" by auto
qed

lemma mask_schema_iff:
  fixes c :: "64 word"
  shows "(c AND (2 OR 4) = c) = (c \<in> {0, 2, 4, 6})"
proof
  assume a: "c AND (2 OR 4) = c"
  have "c AND (2 OR 4) \<le> (2 OR 4)" by (rule word_and_le1)
  with a have "c \<le> 6" by simp
  from word_le_6_cases[OF this] a show "c \<in> {0, 2, 4, 6}" by auto
next
  assume "c \<in> {0, 2, 4, 6}"
  then show "c AND (2 OR 4) = c" by auto
qed

text \<open>
  C6. The stream is a function of the content mask alone: the mask that is exactly
  \<open>{relationships}\<close> selects the relationships-only stream; the four subsets of
  \<open>{schema, checkpoints}\<close>, the empty mask among them, select the schema-only stream; every
  other mask, with bits outside the three included, selects the combined stream.
\<close>

theorem changeStreamName_selection:
  "changeStreamName c =
     (if c = WatchRelationships then RelationTupleChangeStreamName
      else if c \<in> {0, WatchSchema, WatchCheckpoints, WatchSchema OR WatchCheckpoints}
      then SchemaChangeStreamName
      else CombinedChangeStreamName)"
  unfolding changeStreamName_def WatchRelationships_def WatchSchema_def WatchCheckpoints_def
    Let_def
  using mask_relationships_iff[of c] mask_schema_iff[of c] by auto

theorem changeStreamName_selection_witness:
  "changeStreamName WatchRelationships = RelationTupleChangeStreamName
   \<and> changeStreamName 0 = SchemaChangeStreamName
   \<and> changeStreamName (WatchSchema OR WatchCheckpoints) = SchemaChangeStreamName
   \<and> changeStreamName (WatchRelationships OR WatchSchema) = CombinedChangeStreamName
   \<and> changeStreamName 8 = CombinedChangeStreamName"
  using changeStreamName_selection[of WatchRelationships] changeStreamName_selection[of 0]
    changeStreamName_selection[of "WatchSchema OR WatchCheckpoints"]
    changeStreamName_selection[of "WatchRelationships OR WatchSchema"]
    changeStreamName_selection[of 8]
  by (simp add: WatchRelationships_def WatchSchema_def WatchCheckpoints_def)

subsection \<open>Reporting a failure\<close>

lemma sendError_errs:
  "errs (sendError c e s) = errs s @ [if c = Canceled then WatchCanceledErr else e]"
  by (simp add: sendError_def)

lemma closeChannels_errs: "errs (closeChannels s) = errs s"
  by (simp add: closeChannels_def)

lemma closeReader_errs: "errs (closeReader s) = errs s"
  by (simp add: closeReader_def)

lemma watch_errs_cases:
  "errs (watch D db W rv opts ch) = [] \<or>
   (\<exists>e. errs (watch D db W rv opts ch) = [if ctxErr W = Canceled then WatchCanceledErr else e])"
  unfolding watch_def Let_def
  by (auto simp: sendError_errs closeChannels_errs closeReader_errs
        split: sum.splits prod.splits Revision.splits option.splits failure.splits)

text \<open>
  C1. When the context's error is \<^verbatim>\<open>context.Canceled\<close> at the moment a failure is reported,
  \<^verbatim>\<open>sendError\<close> puts the canonical cancellation error on the error channel whatever error it
  was given, and so a session that reports anything, from whichever exit (parse, open, the
  reader's own error, decoding, a refused send), reports exactly that one error.
\<close>

theorem cancellation_normalized:
  "ctxErr W = Canceled \<Longrightarrow>
     errs (sendError (ctxErr W) e s) = errs s @ [WatchCanceledErr]
     \<and> (errs (Watch D db W rv opts) = [] \<or> errs (Watch D db W rv opts) = [WatchCanceledErr])"
  unfolding Watch_def
  using watch_errs_cases[of D db W rv opts] by (auto simp: sendError_errs)

theorem cancellation_normalized_witness:
  "ctxErr (worldOf Canceled [] (Some (ExternalErr ''read failed''))) = Canceled
   \<and> errs (Watch exampleDeps exampleDatabase
              (worldOf Canceled [] (Some (ExternalErr ''read failed''))) (Decimal 0) allContent)
       = [WatchCanceledErr]"
proof -
  have h: "ctxErr (worldOf Canceled [] (Some (ExternalErr ''read failed''))) = Canceled"
    by (simp add: worldOf_def)
  have n: "errs (Watch exampleDeps exampleDatabase
              (worldOf Canceled [] (Some (ExternalErr ''read failed''))) (Decimal 0) allContent)
            \<noteq> []"
    by code_simp
  from cancellation_normalized[OF h, of undefined undefined exampleDeps exampleDatabase
      "Decimal 0" allContent] h n
  show ?thesis by simp
qed

subsection \<open>How a session ends\<close>

lemma watch_closes:
  "\<not> panicked (watch D db W rv opts ch) \<Longrightarrow>
     errsClosed (watch D db W rv opts ch) = 1 \<and> updatesClosed (watch D db W rv opts ch) = 1"
  unfolding watch_def Let_def
  by (auto simp: sendError_def closeChannels_def closeReader_def
        split: sum.splits prod.splits Revision.splits option.splits failure.splits)

lemma watch_closes_le:
  "errsClosed (watch D db W rv opts ch) \<le> 1 \<and> updatesClosed (watch D db W rv opts ch) \<le> 1
   \<and> readerClosed (watch D db W rv opts ch) \<le> 1"
  unfolding watch_def Let_def
  by (auto simp: sendError_def closeChannels_def closeReader_def
        split: sum.splits prod.splits Revision.splits option.splits failure.splits)

lemma watch_errs_empty_iff:
  "\<not> panicked (watch D db W rv opts ch) \<Longrightarrow>
     (errs (watch D db W rv opts ch) = []) =
     (readerOpened (watch D db W rv opts ch) \<noteq> None
      \<and> snd (readerRead (callback D (Content opts)) ch (readResults W) (readReturn W)) = None)"
  unfolding watch_def Let_def
  by (auto simp: sendError_def closeChannels_def closeReader_def
        split: sum.splits prod.splits Revision.splits option.splits failure.splits)

lemma watch_errs_len: "length (errs (watch D db W rv opts ch)) \<le> 1"
  using watch_errs_cases[of D db W rv opts ch] by auto



text \<open>
  C9, as the claim states it, fails: a session whose reader returns without an error (the
  \<^verbatim>\<open>err != nil\<close> test of line 352 is false) closes both channels and delivers no error
  at all.
\<close>

theorem clean_return_delivers_no_error:
  "errs (Watch exampleDeps exampleDatabase (worldOf NoErr [] None) (Decimal 0) allContent) = []
   \<and> errsClosed
        (Watch exampleDeps exampleDatabase (worldOf NoErr [] None) (Decimal 0) allContent) = 1
   \<and> updatesClosed
        (Watch exampleDeps exampleDatabase (worldOf NoErr [] None) (Decimal 0) allContent) = 1"
  by code_simp

text \<open>
  C9, amended. A session delivers at most one error and closes each channel at most once.
  A session that does not panic closes each channel exactly once, and it delivers no error
  exactly when the reader was opened and its \<^verbatim>\<open>Read\<close> returned without an error; on every
  other exit (parse failure, open failure, read or decode failure, refused send, cancellation)
  it delivers exactly one.
\<close>

theorem session_end:
  assumes "S = Watch D db W rv opts"
  shows "length (errs S) \<le> 1 \<and> errsClosed S \<le> 1 \<and> updatesClosed S \<le> 1
     \<and> (\<not> panicked S \<longrightarrow>
          errsClosed S = 1 \<and> updatesClosed S = 1
          \<and> (length (errs S) = 0) =
              (readerOpened S \<noteq> None
               \<and> snd (readerRead (callback D (Content opts))
                        \<lparr>capacity = 10, buffer = [], attempts = [], drains = consumer W\<rparr>
                        (readResults W) (readReturn W)) = None))"
  unfolding assms Watch_def
  using watch_errs_len[of D db W rv opts] watch_closes_le[of D db W rv opts]
    watch_closes[of D db W rv opts] watch_errs_empty_iff[of D db W rv opts]
  by auto

theorem session_end_witness:
  "\<not> panicked (Watch exampleDeps exampleDatabase
                 (worldOf NoErr [] (Some (ExternalErr ''read failed''))) (Decimal 0) allContent)
   \<and> errsClosed (Watch exampleDeps exampleDatabase
                 (worldOf NoErr [] (Some (ExternalErr ''read failed''))) (Decimal 0) allContent) = 1
   \<and> updatesClosed (Watch exampleDeps exampleDatabase
                 (worldOf NoErr [] (Some (ExternalErr ''read failed''))) (Decimal 0) allContent) = 1
   \<and> length (errs (Watch exampleDeps exampleDatabase
                 (worldOf NoErr [] (Some (ExternalErr ''read failed''))) (Decimal 0) allContent)) = 1"
proof -
  have np: "\<not> panicked (Watch exampleDeps exampleDatabase
                 (worldOf NoErr [] (Some (ExternalErr ''read failed''))) (Decimal 0) allContent)"
    by code_simp
  have ne: "length (errs (Watch exampleDeps exampleDatabase
                 (worldOf NoErr [] (Some (ExternalErr ''read failed''))) (Decimal 0) allContent)) \<noteq> 0"
    by code_simp
  from session_end[OF refl, of exampleDeps exampleDatabase
      "worldOf NoErr [] (Some (ExternalErr ''read failed''))" "Decimal 0" allContent] np ne
  show ?thesis by linarith
qed




subsection \<open>Unchecked assertions\<close>

text \<open>
  C5. The relationship branches assert the primary-key columns and the caveat name without
  a check. Deleting a relationship whose stored caveat name is NULL, or a modification whose
  key column is not a string, panics; the session then delivers no error. The schema branches of
  the same switch check the same kind of value and return an error instead.
\<close>

theorem unchecked_assertion_panics:
  "decodeMod exampleDeps (Decimal 1) ''relation_tuple'' ''DELETE'' legacyDelete = Inl Panic
   \<and> decodeMod exampleDeps (Decimal 1) ''relation_tuple'' ''UPDATE'' numericKey = Inl Panic
   \<and> panicked (Watch exampleDeps exampleDatabase legacyDeleteWorld (Decimal 0) allContent)
   \<and> errs (Watch exampleDeps exampleDatabase legacyDeleteWorld (Decimal 0) allContent) = []
   \<and> decodeMod exampleDeps (Decimal 1) ''namespace_config'' ''DELETE'' numericKey
       = Inl (Failed (BugErr ''error converting namespace name: %v''))"
  by code_simp

subsection \<open>Relationship inserts and updates\<close>












subsection \<open>Backpressure\<close>

lemma consumerStep_OK: "chanOK n ch \<Longrightarrow> chanOK n (consumerStep ch)"
  by (auto simp: chanOK_def consumerStep_def split: list.splits)

lemma sendChange_outcome:
  assumes "chanOK n ch" and "sendChange ch x = (ch', ok)"
  shows "(ok \<and> chanOK n ch') \<or> (\<not> ok \<and> chanRefused n ch')"
proof -
  from consumerStep_OK[OF assms(1)] have k: "chanOK n (consumerStep ch)" .
  show ?thesis
    using assms(2) k
    by (auto simp: sendChange_def Let_def chanOK_def chanRefused_def split: if_splits)
qed

lemma sendChanges_outcome:
  "chanOK n ch \<Longrightarrow> sendChanges ch xs = (ch', ok) \<Longrightarrow>
     (ok \<and> chanOK n ch') \<or> (\<not> ok \<and> chanRefused n ch')"
proof (induction xs arbitrary: ch)
  case Nil
  then show ?case by simp
next
  case (Cons x xs)
  obtain ch1 ok1 where s: "sendChange ch x = (ch1, ok1)" by (cases "sendChange ch x")
  from sendChange_outcome[OF Cons.prems(1) s] Cons.prems(2) s Cons.IH[of ch1]
  show ?case by (auto split: if_splits)
qed

lemma handleChangeRecord_outcome:
  assumes "chanOK n ch" and "handleChangeRecord D content ch rec = (ch', fo)"
  shows "chanOK n ch' \<or> (fo = Some (Failed WatchDisconnectedErr) \<and> chanRefused n ch')"
proof (cases "decodeDataChangeRecords D (NewChanges DecimalKeyFunc content) (DataChangeRecords rec)")
  case (Inl f)
  with assms show ?thesis by (simp add: handleChangeRecord_def)
next
  case (Inr tracked)
  obtain ch1 ok1 where s1: "(if \<not> IsEmpty tracked
                 then sendChanges ch (AsRevisionChanges tracked DecimalKeyLessThanFunc)
                 else (ch, True)) = (ch1, ok1)" by fastforce
  have o1: "(ok1 \<and> chanOK n ch1) \<or> (\<not> ok1 \<and> chanRefused n ch1)"
    using s1 assms(1) sendChanges_outcome[OF assms(1), of _ ch1 ok1] by (auto split: if_splits)
  obtain ch2 ok2 where s2: "sendChanges ch1 (map checkpointOf (HeartbeatRecords rec)) = (ch2, ok2)"
    by fastforce
  have o2: "ok1 \<Longrightarrow> (ok2 \<and> chanOK n ch2) \<or> (\<not> ok2 \<and> chanRefused n ch2)"
    using o1 sendChanges_outcome[OF _ s2, of n] by auto
  show ?thesis
    using assms(2) Inr s1 s2 o1 o2
    by (auto simp: handleChangeRecord_def split: if_splits)
qed

lemma handleChangeRecords_outcome:
  "chanOK n ch \<Longrightarrow> handleChangeRecords D content ch recs = (ch', fo) \<Longrightarrow>
     chanOK n ch' \<or> (fo = Some (Failed WatchDisconnectedErr) \<and> chanRefused n ch')"
proof (induction recs arbitrary: ch)
  case Nil
  then show ?case by simp
next
  case (Cons r recs)
  obtain ch1 f1 where s: "handleChangeRecord D content ch r = (ch1, f1)" by fastforce
  from handleChangeRecord_outcome[OF Cons.prems(1) s] Cons.prems(2) s Cons.IH[of ch1]
  show ?case by (auto split: option.splits)
qed

lemma readerRead_outcome:
  "chanOK n ch \<Longrightarrow> readerRead (callback D content) ch rs final = (ch', fo) \<Longrightarrow>
     chanOK n ch' \<or> (fo = Some (Failed WatchDisconnectedErr) \<and> chanRefused n ch')"
proof (induction rs arbitrary: ch)
  case Nil
  then show ?case by simp
next
  case (Cons r rs)
  obtain ch1 f1 where s: "callback D content ch r = (ch1, f1)" by fastforce
  from handleChangeRecords_outcome[OF Cons.prems(1), of D content "ChangeRecords r" ch1 f1]
    Cons.prems(2) s Cons.IH[of ch1]
  show ?case by (auto simp: callback_def split: option.splits)
qed

lemma accepted_roundtrip:
  "list_all snd xs \<Longrightarrow> map (\<lambda>x. (x, True)) (map fst (filter snd xs)) = xs"
  by (induction xs) auto

lemma refused_shape:
  assumes "chanRefused n ch" and "(c, False) \<in> set (attempts ch)"
  shows "attempts ch = map (\<lambda>x. (x, True)) (delivered ch) @ [(c, False)]"
proof -
  from assms(1) have ne: "attempts ch \<noteq> []" and l: "\<not> snd (last (attempts ch))"
    and b: "list_all snd (butlast (attempts ch))" by (auto simp: chanRefused_def)
  obtain c' where lc: "last (attempts ch) = (c', False)" using l by (cases "last (attempts ch)") auto
  have sp: "attempts ch = butlast (attempts ch) @ [(c', False)]"
    using ne lc by (metis append_butlast_last_id)
  have "c = c'"
  proof -
    from assms(2) sp have "(c, False) \<in> set (butlast (attempts ch)) \<or> (c, False) = (c', False)"
      by (metis Un_iff set_append set_ConsD empty_iff set_empty list.set(1))
    with b show ?thesis by (auto simp: list_all_iff)
  qed
  have "delivered ch = map fst (filter snd (butlast (attempts ch)))"
    unfolding delivered_def by (subst sp) simp
  with accepted_roundtrip[OF b] sp \<open>c = c'\<close> show ?thesis by simp
qed

lemma watch_read_branch:
  "updates (watch D db W rv opts ch) = ch
   \<or> (updates (watch D db W rv opts ch)
         = fst (readerRead (callback D (Content opts)) ch (readResults W) (readReturn W))
       \<and> (\<forall>e. snd (readerRead (callback D (Content opts)) ch (readResults W) (readReturn W))
                = Some (Failed e) \<longrightarrow>
              errs (watch D db W rv opts ch)
                = [if ctxErr W = Canceled then WatchCanceledErr else e]
              \<and> errsClosed (watch D db W rv opts ch) = 1
              \<and> updatesClosed (watch D db W rv opts ch) = 1
              \<and> readerClosed (watch D db W rv opts ch) = 1
              \<and> \<not> panicked (watch D db W rv opts ch)))"
  unfolding watch_def Let_def
  by (simp add: sendError_def closeChannels_def closeReader_def
        split: sum.split prod.split Revision.split option.split failure.split)

lemma watch_refused:
  assumes "chanOK n ch" and "(c, False) \<in> set (attempts (updates (watch D db W rv opts ch)))"
  shows "chanRefused n (updates (watch D db W rv opts ch))
     \<and> errs (watch D db W rv opts ch)
         = [if ctxErr W = Canceled then WatchCanceledErr else WatchDisconnectedErr]
     \<and> errsClosed (watch D db W rv opts ch) = 1 \<and> updatesClosed (watch D db W rv opts ch) = 1
     \<and> readerClosed (watch D db W rv opts ch) = 1 \<and> \<not> panicked (watch D db W rv opts ch)"
proof -
  define R where "R = readerRead (callback D (Content opts)) ch (readResults W) (readReturn W)"
  define S where "S = watch D db W rv opts ch"
  have init: "(c, False) \<notin> set (attempts ch)"
    using assms(1) by (auto simp: chanOK_def list_all_iff)
  have r: "readerRead (callback D (Content opts)) ch (readResults W) (readReturn W) = (fst R, snd R)"
    by (simp add: R_def)
  note o = readerRead_outcome[OF assms(1) r]
  from assms(2) init have ne: "updates S \<noteq> ch" unfolding S_def by auto
  from watch_read_branch[of D db W rv opts ch] ne
  have u: "updates S = fst R"
    and b: "\<And>e. snd R = Some (Failed e) \<Longrightarrow>
              errs S = [if ctxErr W = Canceled then WatchCanceledErr else e]
              \<and> errsClosed S = 1 \<and> updatesClosed S = 1 \<and> readerClosed S = 1 \<and> \<not> panicked S"
    unfolding S_def R_def by auto
  from assms(2) u have in': "(c, False) \<in> set (attempts (fst R))" unfolding S_def by simp
  then have "\<not> chanOK n (fst R)" by (force simp: chanOK_def list_all_iff)
  with o have f: "snd R = Some (Failed WatchDisconnectedErr)" and rf: "chanRefused n (fst R)" by auto
  from b[OF f] rf u show ?thesis unfolding S_def by simp
qed

lemma sendChange_refuses_iff:
  "snd (sendChange ch x) = (length (buffer (consumerStep ch)) < capacity ch)"
  by (auto simp: sendChange_def Let_def consumerStep_def split: list.splits)

text \<open>
  C2. A send never waits: it is refused exactly when the buffer, after what the consumer has
  taken, is at capacity, and a refused send leaves the buffer as it was. The data channel of
  a session has capacity 10. If any attempt of a session was refused, the channel was full,
  that attempt is the last one and every earlier attempt was accepted (nothing is delivered
  after it), the error channel holds the disconnect error alone (the cancellation error when
  the context was canceled), and the session closed the reader and both channels once.
\<close>

theorem backpressure_disconnect:
  assumes "S = Watch D db W rv opts" and "(c, False) \<in> set (attempts (updates S))"
  shows "capacity (updates S) = 10 \<and> length (buffer (updates S)) = 10
     \<and> attempts (updates S) = map (\<lambda>x. (x, True)) (delivered (updates S)) @ [(c, False)]
     \<and> errs S = [if ctxErr W = Canceled then WatchCanceledErr else WatchDisconnectedErr]
     \<and> errsClosed S = 1 \<and> updatesClosed S = 1 \<and> readerClosed S = 1 \<and> \<not> panicked S
     \<and> (\<forall>ch x. snd (sendChange ch x) = (length (buffer (consumerStep ch)) < capacity ch))
     \<and> (\<forall>ch x. \<not> snd (sendChange ch x) \<longrightarrow>
           attempts (fst (sendChange ch x)) = attempts ch @ [(x, False)]
           \<and> buffer (fst (sendChange ch x)) = buffer (consumerStep ch))"
proof -
  have ok: "chanOK 10 \<lparr>capacity = 10, buffer = [], attempts = [], drains = consumer W\<rparr>"
    by (simp add: chanOK_def)
  note r = watch_refused[OF ok assms(2)[unfolded assms(1) Watch_def]]
  from r have rf: "chanRefused 10 (updates S)" unfolding assms(1) Watch_def by simp
  note sh = refused_shape[OF rf assms(2)]
  have log: "\<forall>ch x. \<not> snd (sendChange ch x) \<longrightarrow>
           attempts (fst (sendChange ch x)) = attempts ch @ [(x, False)]
           \<and> buffer (fst (sendChange ch x)) = buffer (consumerStep ch)"
    by (auto simp: sendChange_def Let_def consumerStep_def split: list.splits)
  from r rf sh log show ?thesis
    unfolding assms(1) Watch_def by (simp add: chanRefused_def sendChange_refuses_iff)
qed

theorem backpressure_disconnect_witness:
  "(checkpointOf \<lparr>Timestamp = 11\<rparr>, False)
     \<in> set (attempts (updates
         (Watch exampleDeps exampleDatabase saturatedWorld (Decimal 0) allContent)))
   \<and> errs (Watch exampleDeps exampleDatabase saturatedWorld (Decimal 0) allContent)
       = [WatchDisconnectedErr]
   \<and> length (buffer (updates
         (Watch exampleDeps exampleDatabase saturatedWorld (Decimal 0) allContent))) = 10"
proof -
  have h: "(checkpointOf \<lparr>Timestamp = 11\<rparr>, False)
     \<in> set (attempts (updates
         (Watch exampleDeps exampleDatabase saturatedWorld (Decimal 0) allContent)))"
    by code_simp
  have c: "ctxErr saturatedWorld \<noteq> Canceled"
    by code_simp
  from backpressure_disconnect[OF refl h] h c show ?thesis by simp
qed

subsection \<open>Rendering and checkpoints of one change record\<close>

lemma upsert_keys:
  "map fst (upsertRecord k fresh f xs) = (if k \<in> fst ` set xs then map fst xs else map fst xs @ [k])"
proof (induction xs)
  case Nil
  show ?case by simp
next
  case (Cons x xs)
  obtain k' r where x: "x = (k', r)" by (cases x)
  show ?case
  proof (cases "k' = k")
    case True
    then show ?thesis by (simp add: x)
  next
    case False
    with Cons show ?thesis by (simp add: x)
  qed
qed

lemma upsert_distinct:
  "distinct (map fst xs) \<Longrightarrow> distinct (map fst (upsertRecord k fresh f xs))"
  by (simp add: upsert_keys)

lemma upsert_set:
  "p \<in> set (upsertRecord k fresh f xs) \<Longrightarrow>
     p \<in> set xs \<or> (\<exists>r. (k, r) \<in> set xs \<and> p = (k, f r)) \<or> p = (k, f fresh)"
proof (induction xs)
  case Nil
  then show ?case by simp
next
  case (Cons x xs)
  obtain k' r where x: "x = (k', r)" by (cases x)
  show ?case
  proof (cases "k' = k")
    case True
    with Cons.prems show ?thesis by (auto simp: x)
  next
    case False
    with Cons.prems have "p = x \<or> p \<in> set (upsertRecord k fresh f xs)" by (simp add: x)
    with Cons.IH show ?thesis by auto
  qed
qed

lemma upsert_keeps:
  "p \<in> set xs \<Longrightarrow> fst p \<noteq> k \<Longrightarrow> p \<in> set (upsertRecord k fresh f xs)"
  by (induction xs) auto

lemma upsert_hit:
  "(k, r) \<in> set xs \<Longrightarrow> distinct (map fst xs) \<Longrightarrow> (k, f r) \<in> set (upsertRecord k fresh f xs)"
  by (induction xs) (auto simp: rev_image_eqI)

lemma upsert_fresh:
  "k \<notin> fst ` set xs \<Longrightarrow> (k, f fresh) \<in> set (upsertRecord k fresh f xs)"
  by (induction xs) auto

lemma keeps_eventIn: "keeps f \<Longrightarrow> eventIn e r \<Longrightarrow> eventIn e (f r)"
  by (cases e) (auto simp: keeps_def)

lemma recordForRevision_OK:
  assumes "trackedOK t" and "keeps f"
  shows "trackedOK (recordForRevision t (Decimal k) f)"
proof -
  have key: "chKey t (Decimal k) = k" using assms(1) by (simp add: trackedOK_def DecimalKeyFunc_def)
  show ?thesis
    unfolding trackedOK_def recordForRevision_def key
  proof (intro conjI ballI)
    show "chKey (t\<lparr>chRecords := upsertRecord k (emptyRecord (Decimal k)) f (chRecords t)\<rparr>) = DecimalKeyFunc"
      using assms(1) by (simp add: trackedOK_def)
    show "distinct (map fst (chRecords (t\<lparr>chRecords := upsertRecord k (emptyRecord (Decimal k)) f (chRecords t)\<rparr>)))"
      using assms(1) by (simp add: trackedOK_def upsert_distinct)
  next
    fix p assume "p \<in> set (chRecords (t\<lparr>chRecords := upsertRecord k (emptyRecord (Decimal k)) f (chRecords t)\<rparr>))"
    then have "p \<in> set (upsertRecord k (emptyRecord (Decimal k)) f (chRecords t))" by simp
    from upsert_set[OF this] assms show "Revision (snd p) = Decimal (fst p)" 
      by (auto simp: trackedOK_def keeps_def emptyRecord_def)
  next
    fix p assume "p \<in> set (chRecords (t\<lparr>chRecords := upsertRecord k (emptyRecord (Decimal k)) f (chRecords t)\<rparr>))"
    then have "p \<in> set (upsertRecord k (emptyRecord (Decimal k)) f (chRecords t))" by simp
    from upsert_set[OF this] assms show "\<not> IsCheckpoint (snd p)"
      by (auto simp: trackedOK_def keeps_def emptyRecord_def)
  qed
qed

lemma recordForRevision_mono:
  assumes "trackedOK t" and "keeps f" and "holds t e"
  shows "holds (recordForRevision t (Decimal k) f) e"
proof -
  have key: "chKey t (Decimal k) = k" using assms(1) by (simp add: trackedOK_def DecimalKeyFunc_def)
  from assms(3) obtain p where p: "p \<in> set (chRecords t)" "Revision (snd p) = evRev e" "eventIn e (snd p)"
    by (auto simp: holds_def)
  have d: "distinct (map fst (chRecords t))" using assms(1) by (simp add: trackedOK_def)
  show ?thesis
  proof (cases "fst p = k")
    case True
    then have "(k, snd p) \<in> set (chRecords t)" using p(1) by (cases p) auto
    from upsert_hit[OF this d, of f "emptyRecord (Decimal k)"]
    have "(k, f (snd p)) \<in> set (chRecords (recordForRevision t (Decimal k) f))"
      by (simp add: recordForRevision_def key)
    moreover have "Revision (f (snd p)) = evRev e" using assms(2) p(2) by (simp add: keeps_def)
    moreover have "eventIn e (f (snd p))" using keeps_eventIn[OF assms(2) p(3)] .
    ultimately show ?thesis unfolding holds_def by force
  next
    case False
    from upsert_keeps[OF p(1) False, of "emptyRecord (Decimal k)" f]
    have "p \<in> set (chRecords (recordForRevision t (Decimal k) f))"
      by (simp add: recordForRevision_def key)
    with p show ?thesis unfolding holds_def by blast
  qed
qed

lemma recordForRevision_new:
  assumes "trackedOK t" and "keeps f" and "evRev e = Decimal k" and "\<And>r. eventIn e (f r)"
  shows "holds (recordForRevision t (Decimal k) f) e"
proof -
  have key: "chKey t (Decimal k) = k" using assms(1) by (simp add: trackedOK_def DecimalKeyFunc_def)
  have d: "distinct (map fst (chRecords t))" using assms(1) by (simp add: trackedOK_def)
  show ?thesis
  proof (cases "k \<in> fst ` set (chRecords t)")
    case True
    then obtain r where r: "(k, r) \<in> set (chRecords t)" by force
    from upsert_hit[OF r d, of f "emptyRecord (Decimal k)"]
    have "(k, f r) \<in> set (chRecords (recordForRevision t (Decimal k) f))"
      by (simp add: recordForRevision_def key)
    moreover have "Revision r = Decimal k" using assms(1) r by (force simp: trackedOK_def)
    then have "Revision (f r) = evRev e" using assms(2,3) by (simp add: keeps_def)
    ultimately show ?thesis using assms(4)[of r] unfolding holds_def by force
  next
    case False
    from upsert_fresh[OF False, of f "emptyRecord (Decimal k)"]
    have "(k, f (emptyRecord (Decimal k))) \<in> set (chRecords (recordForRevision t (Decimal k) f))"
      by (simp add: recordForRevision_def key)
    moreover have "Revision (f (emptyRecord (Decimal k))) = evRev e"
      using assms(2,3) by (simp add: keeps_def emptyRecord_def)
    ultimately show ?thesis using assms(4)[of "emptyRecord (Decimal k)"] unfolding holds_def by force
  qed
qed

lemma keeps_rel: "keeps (\<lambda>r. r\<lparr>RelationshipChanges := RelationshipChanges r @ [u]\<rparr>)"
  by (auto simp: keeps_def)

lemma keeps_ns: "keeps (\<lambda>r. r\<lparr>DeletedNamespaces := DeletedNamespaces r @ [n]\<rparr>)"
  by (auto simp: keeps_def)

lemma keeps_cav: "keeps (\<lambda>r. r\<lparr>DeletedCaveats := DeletedCaveats r @ [n]\<rparr>)"
  by (auto simp: keeps_def)

lemma keeps_def': "keeps (\<lambda>r. r\<lparr>ChangedDefinitions := ChangedDefinitions r @ [d]\<rparr>)"
  by (auto simp: keeps_def)

lemma recordForRevision_content: "chContent (recordForRevision t rv f) = chContent t"
  by (simp add: recordForRevision_def)

lemma applyEvent_step:
  assumes "trackedOK t" and "applyEvent t ev = Inr t'" and "evRev ev = Decimal k"
  shows "trackedOK t' \<and> chContent t' = chContent t \<and> (\<forall>e. holds t e \<longrightarrow> holds t' e)
     \<and> (eventRequested (chContent t) ev \<longrightarrow> holds t' ev)"
proof (cases ev)
  case (RelationshipChange rv tpl op)
  with assms(3) have rv: "rv = Decimal k" by simp
  show ?thesis
  proof (cases "chContent t AND WatchRelationships \<noteq> WatchRelationships")
    case True
    with assms(1,2) RelationshipChange show ?thesis
      by (auto simp: AddRelationshipChange_def liftErr_def)
  next
    case False
    with assms(2) RelationshipChange rv
    have t': "t' = recordForRevision t (Decimal k)
                (\<lambda>r. r\<lparr>RelationshipChanges := RelationshipChanges r @ [\<lparr>Operation = op, Tuple = tpl\<rparr>]\<rparr>)"
      by (auto simp: AddRelationshipChange_def liftErr_def)
    show ?thesis
      unfolding t'
      using recordForRevision_OK[OF assms(1) keeps_rel] recordForRevision_mono[OF assms(1) keeps_rel]
        recordForRevision_new[OF assms(1) keeps_rel assms(3)] RelationshipChange
      by (simp add: recordForRevision_content)
  qed
next
  case (DeletedNamespace rv name)
  with assms(3) have rv: "rv = Decimal k" by simp
  show ?thesis
  proof (cases "chContent t AND WatchSchema \<noteq> WatchSchema")
    case True
    with assms(1,2) DeletedNamespace show ?thesis
      by (auto simp: AddDeletedNamespace_def)
  next
    case False
    with assms(2) DeletedNamespace rv
    have t': "t' = recordForRevision t (Decimal k)
                (\<lambda>r. r\<lparr>DeletedNamespaces := DeletedNamespaces r @ [name]\<rparr>)"
      by (auto simp: AddDeletedNamespace_def)
    show ?thesis
      unfolding t'
      using recordForRevision_OK[OF assms(1) keeps_ns] recordForRevision_mono[OF assms(1) keeps_ns]
        recordForRevision_new[OF assms(1) keeps_ns assms(3)] DeletedNamespace
      by (simp add: recordForRevision_content)
  qed
next
  case (DeletedCaveat rv name)
  with assms(3) have rv: "rv = Decimal k" by simp
  show ?thesis
  proof (cases "chContent t AND WatchSchema \<noteq> WatchSchema")
    case True
    with assms(1,2) DeletedCaveat show ?thesis
      by (auto simp: AddDeletedCaveat_def)
  next
    case False
    with assms(2) DeletedCaveat rv
    have t': "t' = recordForRevision t (Decimal k)
                (\<lambda>r. r\<lparr>DeletedCaveats := DeletedCaveats r @ [name]\<rparr>)"
      by (auto simp: AddDeletedCaveat_def)
    show ?thesis
      unfolding t'
      using recordForRevision_OK[OF assms(1) keeps_cav] recordForRevision_mono[OF assms(1) keeps_cav]
        recordForRevision_new[OF assms(1) keeps_cav assms(3)] DeletedCaveat
      by (simp add: recordForRevision_content)
  qed
next
  case (ChangedDefinition rv d)
  with assms(3) have rv: "rv = Decimal k" by simp
  show ?thesis
  proof (cases "chContent t AND WatchSchema \<noteq> WatchSchema")
    case True
    with assms(1,2) ChangedDefinition show ?thesis
      by (auto simp: AddChangedDefinition_def)
  next
    case False
    with assms(2) ChangedDefinition rv
    have t': "t' = recordForRevision t (Decimal k)
                (\<lambda>r. r\<lparr>ChangedDefinitions := ChangedDefinitions r @ [d]\<rparr>)"
      by (auto simp: AddChangedDefinition_def)
    show ?thesis
      unfolding t'
      using recordForRevision_OK[OF assms(1) keeps_def'] recordForRevision_mono[OF assms(1) keeps_def']
        recordForRevision_new[OF assms(1) keeps_def' assms(3)] ChangedDefinition
      by (simp add: recordForRevision_content)
  qed
qed

lemma andThen_Inr: "andThen r f = Inr y \<Longrightarrow> \<exists>x. r = Inr x \<and> f x = Inr y"
  by (cases r) (simp_all add: andThen_def)

lemma decodeDelete_rev: "decodeDelete D rv tn pk m = Inr (Some ev) \<Longrightarrow> evRev ev = rv"
  unfolding decodeDelete_def bug_def
  by (auto dest!: andThen_Inr split: if_splits option.splits)

lemma decodeUpsert_rev: "decodeUpsert D rv tn pk m = Inr (Some ev) \<Longrightarrow> evRev ev = rv"
  unfolding decodeUpsert_def bug_def
  by (auto dest!: andThen_Inr split: if_splits option.splits sum.splits)

lemma decodeMod_rev: "decodeMod D rv tn mt m = Inr (Some ev) \<Longrightarrow> evRev ev = rv"
  unfolding decodeMod_def bug_def
  by (auto dest: decodeDelete_rev decodeUpsert_rev split: if_splits option.splits)

lemma decodeMods_step:
  "trackedOK t \<Longrightarrow> decodeMods D t (Decimal k) tn mt ms = Inr t' \<Longrightarrow>
     trackedOK t' \<and> chContent t' = chContent t \<and> (\<forall>e. holds t e \<longrightarrow> holds t' e)
     \<and> (\<forall>m \<in> set ms. \<forall>ev. decodeMod D (Decimal k) tn mt m = Inr (Some ev)
            \<and> eventRequested (chContent t) ev \<longrightarrow> holds t' ev)"
proof (induction ms arbitrary: t)
  case Nil
  then show ?case by simp
next
  case (Cons m ms)
  show ?case
  proof (cases "decodeMod D (Decimal k) tn mt m")
    case (Inl f)
    with Cons.prems(2) show ?thesis by simp
  next
    case (Inr eo)
    show ?thesis
    proof (cases eo)
      case None
      with Inr Cons.prems(2) have "decodeMods D t (Decimal k) tn mt ms = Inr t'" by simp
      from Cons.IH[OF Cons.prems(1) this] Inr None show ?thesis by simp
    next
      case (Some ev)
      from Inr Some have dm: "decodeMod D (Decimal k) tn mt m = Inr (Some ev)" by simp
      from decodeMod_rev[OF dm] have rv: "evRev ev = Decimal k" .
      from Cons.prems(2) dm obtain t1 where a: "applyEvent t ev = Inr t1"
        and r: "decodeMods D t1 (Decimal k) tn mt ms = Inr t'"
        by (cases "applyEvent t ev") auto
      note s1 = applyEvent_step[OF Cons.prems(1) a rv]
      from s1 have ok1: "trackedOK t1" by simp
      note s2 = Cons.IH[OF ok1 r]
      from s1 s2 dm show ?thesis by auto
    qed
  qed
qed

lemma decodeDataChangeRecords_step:
  "trackedOK t \<Longrightarrow> decodeDataChangeRecords D t dcrs = Inr t' \<Longrightarrow>
     trackedOK t' \<and> chContent t' = chContent t \<and> (\<forall>e. holds t e \<longrightarrow> holds t' e)
     \<and> (\<forall>dcr \<in> set dcrs. \<forall>m \<in> set (Mods dcr). \<forall>ev.
           decodeMod D (revisionFromTimestamp (CommitTimestamp dcr)) (TableName dcr)
             (ModType dcr) m = Inr (Some ev)
           \<and> eventRequested (chContent t) ev \<longrightarrow> holds t' ev)"
proof (induction dcrs arbitrary: t)
  case Nil
  then show ?case by simp
next
  case (Cons dcr dcrs)
  from Cons.prems(2) obtain t1 where
    a: "decodeMods D t (Decimal (CommitTimestamp dcr)) (TableName dcr) (ModType dcr) (Mods dcr) = Inr t1"
    and r: "decodeDataChangeRecords D t1 dcrs = Inr t'"
    by (auto simp: revisionFromTimestamp_def split: sum.splits)
  note s1 = decodeMods_step[OF Cons.prems(1) a]
  from s1 have ok1: "trackedOK t1" by simp
  note s2 = Cons.IH[OF ok1 r]
  from s1 s2 show ?case by (auto simp: revisionFromTimestamp_def)
qed

lemma NewChanges_OK: "trackedOK (NewChanges DecimalKeyFunc content)"
  by (simp add: trackedOK_def NewChanges_def)

lemma insertByKey_set: "set (insertByKey lt x ys) = insert x (set ys)"
  by (induction ys) auto

lemma sortByKey_set: "set (sortByKey lt xs) = set xs"
  by (induction xs) (auto simp: insertByKey_set)

lemma insertByKey_sorted:
  "sorted (map fst ys) \<Longrightarrow> sorted (map fst (insertByKey DecimalKeyLessThanFunc x ys))"
  by (induction ys) (auto simp: DecimalKeyLessThanFunc_def insertByKey_set)

lemma sortByKey_sorted: "sorted (map fst (sortByKey DecimalKeyLessThanFunc xs))"
  by (induction xs) (auto simp: insertByKey_sorted)

lemma insertByKey_distinct:
  "distinct (map fst (insertByKey lt x ys)) = (fst x \<notin> fst ` set ys \<and> distinct (map fst ys))"
  by (induction ys) (auto simp: insertByKey_set)

lemma sortByKey_distinct: "distinct (map fst (sortByKey lt xs)) = distinct (map fst xs)"
  by (induction xs) (auto simp: insertByKey_distinct sortByKey_set)

lemma rendered_strict:
  assumes "trackedOK t"
  shows "sorted_wrt (<) (map (timestampFromRevision \<circ> Revision)
                            (AsRevisionChanges t DecimalKeyLessThanFunc))"
proof -
  let ?s = "sortByKey DecimalKeyLessThanFunc (chRecords t)"
  have d: "distinct (map fst ?s)" using assms by (simp add: sortByKey_distinct trackedOK_def)
  have h: "\<forall>p \<in> set ?s. timestampFromRevision (Revision (snd p)) = fst p"
    using assms by (auto simp: sortByKey_set trackedOK_def)
  have e: "map (timestampFromRevision \<circ> Revision)
             (AsRevisionChanges t DecimalKeyLessThanFunc) = map fst ?s"
    unfolding AsRevisionChanges_def map_map
    by (rule map_cong[OF refl]) (simp add: h)
  have st: "sorted_wrt (<) (map fst ?s)"
    using d sortByKey_sorted[of "chRecords t"] by (simp add: strict_sorted_iff)
  show ?thesis unfolding e by (rule st)
qed

lemma rendered_holds:
  assumes "holds t ev"
  shows "\<exists>s \<in> set (AsRevisionChanges t DecimalKeyLessThanFunc). Revision s = evRev ev \<and> eventIn ev s"
  using assms by (force simp: holds_def AsRevisionChanges_def sortByKey_set)

lemma rendered_not_checkpoint:
  assumes "trackedOK t"
  shows "list_all (\<lambda>s. \<not> IsCheckpoint s) (AsRevisionChanges t DecimalKeyLessThanFunc)"
  using assms by (auto simp: list_all_iff AsRevisionChanges_def sortByKey_set trackedOK_def)

lemma consumerStep_attempts: "attempts (consumerStep ch) = attempts ch"
  by (simp add: consumerStep_def split: list.splits)

lemma sendChange_delivered:
  "sendChange ch x = (ch', ok) \<Longrightarrow> delivered ch' = delivered ch @ (if ok then [x] else [])"
  by (auto simp: sendChange_def Let_def delivered_def consumerStep_attempts split: if_splits)

lemma sendChanges_delivered:
  "sendChanges ch xs = (ch', ok) \<Longrightarrow>
     (\<exists>k. delivered ch' = delivered ch @ take k xs) \<and> (ok \<longrightarrow> delivered ch' = delivered ch @ xs)"
proof (induction xs arbitrary: ch)
  case Nil
  then show ?case by simp
next
  case (Cons x xs)
  obtain ch1 ok1 where s: "sendChange ch x = (ch1, ok1)" by (cases "sendChange ch x")
  note d = sendChange_delivered[OF s]
  show ?case
  proof (cases ok1)
    case True
    with Cons.prems s have r: "sendChanges ch1 xs = (ch', ok)" by simp
    from Cons.IH[OF r] have ex: "\<exists>k. delivered ch' = delivered ch1 @ take k xs"
      and f: "ok \<longrightarrow> delivered ch' = delivered ch1 @ xs" by blast+
    from ex obtain k where k: "delivered ch' = delivered ch1 @ take k xs" by blast
    from k d True have "delivered ch' = delivered ch @ take (Suc k) (x # xs)" by simp
    moreover from f d True have "ok \<longrightarrow> delivered ch' = delivered ch @ x # xs" by simp
    ultimately show ?thesis by blast
  next
    case False
    with Cons.prems s have "ch' = ch1" "\<not> ok" by auto
    with d False have "delivered ch' = delivered ch @ take 0 (x # xs)" by simp
    with \<open>\<not> ok\<close> show ?thesis by blast
  qed
qed

lemma take_left_of_append: "take k xs = take (min k (length xs)) (xs @ ys)"
  by (cases "k \<le> length xs") (simp_all add: min_def)

lemma handleChangeRecord_delivered:
  assumes "handleChangeRecord D content ch rec = (ch', fo)"
  shows "(\<exists>k. delivered ch' = delivered ch @
              take k (renderedSets D content rec @
                      (if content AND WatchCheckpoints = WatchCheckpoints
                       then map checkpointOf (HeartbeatRecords rec) else [])))
     \<and> (fo = None \<longrightarrow> delivered ch' = delivered ch @ renderedSets D content rec @
                      (if content AND WatchCheckpoints = WatchCheckpoints
                       then map checkpointOf (HeartbeatRecords rec) else []))"
proof -
  define cps where "cps = map checkpointOf (HeartbeatRecords rec)"
  define tail where "tail = (if content AND WatchCheckpoints = WatchCheckpoints then cps else [])"
  define out where "out = renderedSets D content rec"
  have goal: "(\<exists>k. delivered ch' = delivered ch @ take k (out @ tail))
              \<and> (fo = None \<longrightarrow> delivered ch' = delivered ch @ out @ tail)"
  proof (cases "decodeDataChangeRecords D (NewChanges DecimalKeyFunc content)
                  (DataChangeRecords rec)")
    case (Inl f)
    with assms have e: "ch' = ch" "fo = Some f" by (auto simp: handleChangeRecord_def)
    have "delivered ch' = delivered ch @ take 0 (out @ tail)" using e(1) by simp
    then have "\<exists>k. delivered ch' = delivered ch @ take k (out @ tail)" by (rule exI)
    with e(2) show ?thesis by simp
  next
    case (Inr tracked)
    have rs: "AsRevisionChanges tracked DecimalKeyLessThanFunc = out"
      by (simp add: renderedSets_def Inr out_def)
    have em: "IsEmpty tracked \<Longrightarrow> out = []"
      unfolding rs[symmetric] by (simp add: IsEmpty_def AsRevisionChanges_def)
    obtain ch1 ok1 where s1: "sendChanges ch out = (ch1, ok1)" by fastforce
    obtain ch2 ok2 where s2: "sendChanges ch1 cps = (ch2, ok2)" by fastforce
    note d1 = sendChanges_delivered[OF s1]
    note d2 = sendChanges_delivered[OF s2]
    have first: "(if \<not> IsEmpty tracked
                  then sendChanges ch (AsRevisionChanges tracked DecimalKeyLessThanFunc)
                  else (ch, True)) = (ch1, ok1)"
      using s1 em unfolding rs by (cases "IsEmpty tracked") auto
    show ?thesis
    proof (cases ok1)
      case False
      with assms Inr first have e: "ch' = ch1" "fo = Some (Failed WatchDisconnectedErr)"
        by (auto simp: handleChangeRecord_def)
      from d1 obtain k where k: "delivered ch1 = delivered ch @ take k out" by blast
      have "delivered ch' = delivered ch @ take (min k (length out)) (out @ tail)"
        unfolding e(1) k take_left_of_append[of k out tail] ..
      then have "\<exists>k. delivered ch' = delivered ch @ take k (out @ tail)" by (rule exI)
      with e(2) show ?thesis by simp
    next
      case True
      with d1 have full1: "delivered ch1 = delivered ch @ out" by simp
      show ?thesis
      proof (cases "content AND WatchCheckpoints = WatchCheckpoints")
        case False
        with assms Inr first True have e: "ch' = ch1" "fo = None"
          by (auto simp: handleChangeRecord_def)
        have t: "tail = []" using False by (simp add: tail_def)
        have f: "delivered ch' = delivered ch @ out @ tail" using e(1) full1 t by simp
        have "delivered ch' = delivered ch @ take (length (out @ tail)) (out @ tail)"
          using f by simp
        then have "\<exists>k. delivered ch' = delivered ch @ take k (out @ tail)" by (rule exI)
        with f show ?thesis by simp
      next
        case cp: True
        have t: "tail = cps" using cp by (simp add: tail_def)
        from assms Inr first True s2 cp have e: "ch' = ch2"
          "fo = (if ok2 then None else Some (Failed WatchDisconnectedErr))"
          by (auto simp: handleChangeRecord_def cps_def split: if_splits)
        from d2 have ex: "\<exists>k. delivered ch2 = delivered ch1 @ take k cps"
          and f: "ok2 \<longrightarrow> delivered ch2 = delivered ch1 @ cps" by blast+
        from ex obtain k where k: "delivered ch2 = delivered ch1 @ take k cps" by blast
        have "delivered ch' = delivered ch @ take (length out + k) (out @ tail)"
          using k full1 e(1) t by simp
        then have a: "\<exists>k. delivered ch' = delivered ch @ take k (out @ tail)" by (rule exI)
        have b: "fo = None \<longrightarrow> delivered ch' = delivered ch @ out @ tail"
          using f full1 e t by (simp split: if_splits)
        from a b show ?thesis by simp
      qed
    qed
  qed
  from goal show ?thesis unfolding out_def tail_def cps_def .
qed

lemma renderedSets_not_checkpoint:
  "list_all (\<lambda>s. \<not> IsCheckpoint s) (renderedSets D content rec)"
proof (cases "decodeDataChangeRecords D (NewChanges DecimalKeyFunc content)
                (DataChangeRecords rec)")
  case (Inl f)
  then show ?thesis by (simp add: renderedSets_def)
next
  case (Inr tracked)
  from decodeDataChangeRecords_step[OF NewChanges_OK Inr] have "trackedOK tracked" by simp
  from rendered_not_checkpoint[OF this] Inr show ?thesis by (simp add: renderedSets_def)
qed

text \<open>
  C8, as the claim states it, fails: the accumulator and the heartbeat loop are both inside the
  loop over the change records of a batch. In a batch whose first change record holds a
  heartbeat and whose second holds a data change, the checkpoint is delivered before the data
  change set of the same batch.
\<close>

theorem checkpoint_before_data_of_same_batch:
  "length (readResults heartbeatFirstWorld) = 1
   \<and> map IsCheckpoint (delivered (updates
        (Watch exampleDeps exampleDatabase heartbeatFirstWorld (Decimal 0) allContent)))
       = [True, False]
   \<and> map Revision (delivered (updates
        (Watch exampleDeps exampleDatabase heartbeatFirstWorld (Decimal 0) allContent)))
       = [Decimal 7, Decimal 5]"
  by code_simp

text \<open>
  C8, amended to the change record. Whatever handling one change record delivers is a prefix of
  its rendered data change sets followed by its checkpoints, and all of it when the record is
  handled without a failure. The checkpoints are none when the checkpoints bit is not set and
  one per heartbeat record, in order, when it is; a checkpoint has the flag set and carries
  the heartbeat's revision and no data, and no rendered data change set has the flag. So
  within a change record every checkpoint is delivered after all of its data change sets.
\<close>

theorem checkpoint_gating:
  assumes "handleChangeRecord D content ch rec = (ch', fo)"
  shows "(\<exists>k. delivered ch' = delivered ch @
              take k (renderedSets D content rec @
                      (if content AND WatchCheckpoints = WatchCheckpoints
                       then map checkpointOf (HeartbeatRecords rec) else [])))
     \<and> (fo = None \<longrightarrow> delivered ch' = delivered ch @ renderedSets D content rec @
                      (if content AND WatchCheckpoints = WatchCheckpoints
                       then map checkpointOf (HeartbeatRecords rec) else []))
     \<and> list_all (\<lambda>s. \<not> IsCheckpoint s) (renderedSets D content rec)
     \<and> (\<forall>h. checkpointOf h =
           \<lparr>Revision = revisionFromTimestamp (Timestamp h), RelationshipChanges = [],
            ChangedDefinitions = [], DeletedNamespaces = [], DeletedCaveats = [],
            IsCheckpoint = True\<rparr>)"
  using handleChangeRecord_delivered[OF assms] renderedSets_not_checkpoint[of D content rec]
  by (simp add: checkpointOf_def)

theorem checkpoint_gating_witness:
  "snd (handleChangeRecord exampleDeps (Content allContent)
          \<lparr>capacity = 10, buffer = [], attempts = [], drains = []\<rparr> mixedRecord) = None
   \<and> map IsCheckpoint (delivered (fst (handleChangeRecord exampleDeps (Content allContent)
          \<lparr>capacity = 10, buffer = [], attempts = [], drains = []\<rparr> mixedRecord)))
       = [False, False, True]
   \<and> map IsCheckpoint (delivered (fst (handleChangeRecord exampleDeps WatchRelationships
          \<lparr>capacity = 10, buffer = [], attempts = [], drains = []\<rparr> mixedRecord)))
       = [False]"
proof -
  let ?ch = "\<lparr>capacity = 10, buffer = [], attempts = [], drains = []\<rparr>"
  let ?r = "handleChangeRecord exampleDeps (Content allContent) ?ch mixedRecord"
  let ?q = "handleChangeRecord exampleDeps WatchRelationships ?ch mixedRecord"
  have n: "snd ?r = None" by code_simp
  have n': "snd ?q = None" by code_simp
  have d: "delivered ?ch = []" by code_simp
  have c: "Content allContent AND WatchCheckpoints = WatchCheckpoints" by code_simp
  have c': "WatchRelationships AND WatchCheckpoints \<noteq> WatchCheckpoints" by code_simp
  have m: "map IsCheckpoint (renderedSets exampleDeps (Content allContent) mixedRecord)
             = [False, False]" by code_simp
  have m': "map IsCheckpoint (renderedSets exampleDeps WatchRelationships mixedRecord)
             = [False]" by code_simp
  have h: "map IsCheckpoint (map checkpointOf (HeartbeatRecords mixedRecord)) = [True]"
    by code_simp
  from checkpoint_gating[OF prod.collapse[symmetric], of exampleDeps "Content allContent" ?ch
      mixedRecord] n d c
  have a: "delivered (fst ?r) = renderedSets exampleDeps (Content allContent) mixedRecord
             @ map checkpointOf (HeartbeatRecords mixedRecord)"
    by simp
  from checkpoint_gating[OF prod.collapse[symmetric], of exampleDeps WatchRelationships ?ch
      mixedRecord] n' d c'
  have b: "delivered (fst ?q) = renderedSets exampleDeps WatchRelationships mixedRecord"
    by simp
  show ?thesis unfolding a b using n m m' h by simp
qed

text \<open>
  C7, as the claim states it, fails: a fresh accumulator is built for every change record of a
  batch (line 147). Two change records of one batch with modifications of the same revision
  yield two change sets of that revision, neither merged nor strictly ascending.
\<close>

theorem same_revision_twice_in_one_batch:
  "length (readResults splitBatchWorld) = 1
   \<and> map Revision (delivered (updates
        (Watch exampleDeps exampleDatabase splitBatchWorld (Decimal 0) allContent)))
       = [Decimal 5, Decimal 5]
   \<and> map DeletedNamespaces (delivered (updates
        (Watch exampleDeps exampleDatabase splitBatchWorld (Decimal 0) allContent)))
       = [[''a''], [''b'']]"
  by code_simp

text \<open>
  C7, amended to the change record. Where the data change records of one change record decode,
  the rendered change sets are strictly ascending by revision, so no revision has two sets, and
  every modification of the record that decodes to an event the content mask asks for is
  carried by the set of its commit revision. These sets are what the record delivers first
  when it is handled without a failure.
\<close>

theorem rendered_ascending_merged:
  assumes "case decodeDataChangeRecords D (NewChanges DecimalKeyFunc content)
              (DataChangeRecords rec) of Inl f \<Rightarrow> False | Inr t \<Rightarrow> True"
  shows "sorted_wrt (<) (map (timestampFromRevision \<circ> Revision) (renderedSets D content rec))
     \<and> distinct (map Revision (renderedSets D content rec))
     \<and> (\<forall>dcr \<in> set (DataChangeRecords rec). \<forall>m \<in> set (Mods dcr). \<forall>ev.
           decodeMod D (revisionFromTimestamp (CommitTimestamp dcr)) (TableName dcr)
             (ModType dcr) m = Inr (Some ev)
           \<and> eventRequested content ev \<longrightarrow>
           (\<exists>s \<in> set (renderedSets D content rec).
              Revision s = revisionFromTimestamp (CommitTimestamp dcr) \<and> eventIn ev s))
     \<and> (\<forall>ch ch'. handleChangeRecord D content ch rec = (ch', None) \<longrightarrow>
           take (length (renderedSets D content rec))
             (drop (length (delivered ch)) (delivered ch')) = renderedSets D content rec)"
proof -
  from assms obtain tracked where
    dec: "decodeDataChangeRecords D (NewChanges DecimalKeyFunc content) (DataChangeRecords rec)
            = Inr tracked"
    by (auto split: sum.splits)
  have rs: "renderedSets D content rec = AsRevisionChanges tracked DecimalKeyLessThanFunc"
    by (simp add: renderedSets_def dec)
  note st = decodeDataChangeRecords_step[OF NewChanges_OK dec]
  from st have ok: "trackedOK tracked" by simp
  have s: "sorted_wrt (<) (map (timestampFromRevision \<circ> Revision) (renderedSets D content rec))"
    unfolding rs by (rule rendered_strict[OF ok])
  then have "distinct (map (timestampFromRevision \<circ> Revision) (renderedSets D content rec))"
    by (simp add: strict_sorted_iff)
  then have "distinct (map timestampFromRevision (map Revision (renderedSets D content rec)))"
    by (simp only: map_map)
  then have d: "distinct (map Revision (renderedSets D content rec))"
    using distinct_map[of timestampFromRevision "map Revision (renderedSets D content rec)"]
    by blast
  have c: "\<forall>dcr \<in> set (DataChangeRecords rec). \<forall>m \<in> set (Mods dcr). \<forall>ev.
           decodeMod D (revisionFromTimestamp (CommitTimestamp dcr)) (TableName dcr)
             (ModType dcr) m = Inr (Some ev)
           \<and> eventRequested content ev \<longrightarrow>
           (\<exists>s \<in> set (renderedSets D content rec).
              Revision s = revisionFromTimestamp (CommitTimestamp dcr) \<and> eventIn ev s)"
  proof (intro ballI allI impI)
    fix dcr m ev
    assume i: "dcr \<in> set (DataChangeRecords rec)" "m \<in> set (Mods dcr)"
      and e: "decodeMod D (revisionFromTimestamp (CommitTimestamp dcr)) (TableName dcr)
                (ModType dcr) m = Inr (Some ev) \<and> eventRequested content ev"
    from st i e have "holds tracked ev" by (auto simp: NewChanges_def)
    from rendered_holds[OF this] decodeMod_rev[OF e[THEN conjunct1]]
    show "\<exists>s \<in> set (renderedSets D content rec).
              Revision s = revisionFromTimestamp (CommitTimestamp dcr) \<and> eventIn ev s"
      unfolding rs by simp
  qed
  have f: "\<forall>ch ch'. handleChangeRecord D content ch rec = (ch', None) \<longrightarrow>
           take (length (renderedSets D content rec))
             (drop (length (delivered ch)) (delivered ch')) = renderedSets D content rec"
  proof (intro allI impI)
    fix ch ch'
    assume "handleChangeRecord D content ch rec = (ch', None)"
    from handleChangeRecord_delivered[OF this]
    show "take (length (renderedSets D content rec))
             (drop (length (delivered ch)) (delivered ch')) = renderedSets D content rec"
      by simp
  qed
  from s d c f show ?thesis by blast
qed

theorem rendered_ascending_merged_witness:
  "(case decodeDataChangeRecords exampleDeps (NewChanges DecimalKeyFunc (Content allContent))
           (DataChangeRecords mixedRecord) of Inl f \<Rightarrow> False | Inr t \<Rightarrow> True)
   \<and> sorted_wrt (<) (map (timestampFromRevision \<circ> Revision)
                        (renderedSets exampleDeps (Content allContent) mixedRecord))
   \<and> map Revision (renderedSets exampleDeps (Content allContent) mixedRecord)
       = [Decimal 5, Decimal 9]
   \<and> map DeletedNamespaces (renderedSets exampleDeps (Content allContent) mixedRecord)
       = [[], [''a'']]"
proof -
  have h: "case decodeDataChangeRecords exampleDeps
                  (NewChanges DecimalKeyFunc (Content allContent))
                  (DataChangeRecords mixedRecord) of Inl f \<Rightarrow> False | Inr t \<Rightarrow> True"
    by code_simp
  have r: "map Revision (renderedSets exampleDeps (Content allContent) mixedRecord)
             = [Decimal 5, Decimal 9]"
    by code_simp
  have n: "map DeletedNamespaces (renderedSets exampleDeps (Content allContent) mixedRecord)
             = [[], [''a'']]"
    by code_simp
  from rendered_ascending_merged[OF h] h r n show ?thesis by simp
qed

end
